theory Spec2Isabelle
  imports Complex_Main "HOL-Library.Sublist"
begin

section \<open>Values of the client language\<close>

text \<open>
  The screens are TypeScript. A \<^verbatim>\<open>number\<close> is an IEEE double. A finite one is kept as
  the rational that its decimal representation denotes, the representation that
  \<^verbatim>\<open>String\<close> shows and that \<^verbatim>\<open>JSON.stringify\<close> writes into a request. The three special
  values are kept apart, since \<^verbatim>\<open>Math.floor\<close>, \<^verbatim>\<open>Math.max\<close>, \<^verbatim>\<open>isNaN\<close>, \<^verbatim>\<open>||\<close> and
  \<^verbatim>\<open>JSON.stringify\<close> treat them differently. Negative zero is identified with zero (both
  are falsy, and both are sent to the store as \<^verbatim>\<open>0\<close>).
\<close>

datatype jsnum = NaN | PosInf | NegInf | Fin rat

text \<open>User-entered text is a sequence of UTF-16 code units; messages shown in alerts
  and error messages of the store are plain strings.\<close>

type_synonym jsstring = "nat list"

text \<open>Identifiers are generated by the store (\<^verbatim>\<open>gen_random_uuid()\<close>); they are opaque,
  and a counter stands for the generator. A timestamp is the number of milliseconds
  since the epoch, the resolution at which \<^verbatim>\<open>new Date(..).getTime()\<close> reads it.\<close>

type_synonym uuid = nat
type_synonym timestamp = int

text \<open>\<^verbatim>\<open>String.prototype.trim\<close> removes the code units of WhiteSpace and LineTerminator
  from both ends.\<close>

definition isWhiteSpace :: "nat \<Rightarrow> bool" where
  "isWhiteSpace c \<longleftrightarrow>
     c \<in> {9, 10, 11, 12, 13, 32, 160, 5760, 8232, 8233, 8239, 8287, 12288, 65279}
     \<or> (8192 \<le> c \<and> c \<le> 8202)"

definition trim :: "jsstring \<Rightarrow> jsstring" where
  "trim s = rev (dropWhile isWhiteSpace (rev (dropWhile isWhiteSpace s)))"

text \<open>\<^verbatim>\<open>x || 0\<close> on a number: the falsy numbers are zero and NaN.\<close>

fun or_zero :: "jsnum \<Rightarrow> jsnum" where
  "or_zero NaN = Fin 0"
| "or_zero (Fin q) = Fin q"
| "or_zero PosInf = PosInf"
| "or_zero NegInf = NegInf"

fun Math_floor :: "jsnum \<Rightarrow> jsnum" where
  "Math_floor (Fin q) = Fin (of_int \<lfloor>q\<rfloor>)"
| "Math_floor NaN = NaN"
| "Math_floor PosInf = PosInf"
| "Math_floor NegInf = NegInf"

text \<open>\<^verbatim>\<open>Math.max(0, x)\<close>.\<close>

fun Math_max0 :: "jsnum \<Rightarrow> jsnum" where
  "Math_max0 (Fin q) = Fin (max 0 q)"
| "Math_max0 NaN = NaN"
| "Math_max0 PosInf = PosInf"
| "Math_max0 NegInf = Fin 0"

fun isNaN :: "jsnum \<Rightarrow> bool" where
  "isNaN NaN = True"
| "isNaN _ = False"

section \<open>The entity store\<close>

text \<open>
  The tables of \<^verbatim>\<open>supabase-schema.sql\<close>, one record per row, one list per table in
  insertion order. A nullable column is an option (\<open>None\<close> is SQL NULL).
\<close>

record exercise_row =
  e_id :: uuid
  e_name :: jsstring
  e_description :: "jsstring option"

record workout_row =
  w_id :: uuid
  w_user_id :: uuid
  w_name :: jsstring
  w_description :: "jsstring option"
  w_created_at :: timestamp
  w_completed_at :: "timestamp option"

record workout_exercise_row =
  we_id :: uuid
  we_workout_id :: uuid
  we_exercise_id :: uuid
  we_order :: nat
  we_created_at :: timestamp

record set_row =
  s_id :: uuid
  s_workout_exercise_id :: uuid
  s_weight :: "jsnum option"
  s_reps :: jsnum
  s_completed :: bool
  s_created_at :: timestamp

text \<open>
  The store is remote: every call may fail, and it stamps rows with its own clock. Both
  are outside the program, so the environment supplies them per call: \<open>fails E n\<close> is
  the error message of the \<open>n\<close>-th call issued if it fails for a reason of its own (the
  network, the service), \<open>refusal E n\<close> the message with which the database answers
  the \<open>n\<close>-th call when it carries a value that does not fit its column, and
  \<open>clock E n\<close> the time at which the call is served. The store counts the calls issued
  against it, so that "no store call was made" is a statement about the state.
\<close>

record env =
  fails :: "nat \<Rightarrow> string option"
  refusal :: "nat \<Rightarrow> string"
  clock :: "nat \<Rightarrow> timestamp"

record store =
  tbl_exercises :: "exercise_row list"
  tbl_workouts :: "workout_row list"
  tbl_workout_exercises :: "workout_exercise_row list"
  tbl_sets :: "set_row list"
  next_id :: uuid
  calls :: nat

definition called :: "store \<Rightarrow> store" where
  "called s = s\<lparr>calls := calls s + 1\<rparr>"

text \<open>
  The two numeric columns of \<^verbatim>\<open>sets\<close>. The body of a request is JSON: a field that is
  \<^verbatim>\<open>undefined\<close> is left out, and a number that is not finite is written \<^verbatim>\<open>null\<close>; in
  both cases the value for the column is NULL.

  \<^verbatim>\<open>reps INTEGER NOT NULL\<close>: the database refuses NULL, a number that is not whole and a
  whole number outside the 32-bit range; a value that fits is stored as it is.

  \<^verbatim>\<open>weight DECIMAL(5,2)\<close>: the column is nullable; a number is rounded to two decimals,
  a tie away from zero, and refused unless the rounded value is below 1000 in absolute
  value.
\<close>

definition reps_fits :: "jsnum \<Rightarrow> bool" where
  "reps_fits x =
     (case x of
        Fin q \<Rightarrow> of_int \<lfloor>q\<rfloor> = q \<and> - (2 ^ 31) \<le> q \<and> q < 2 ^ 31
      | _ \<Rightarrow> False)"

definition DECIMAL_5_2 :: "rat \<Rightarrow> rat" where
  "DECIMAL_5_2 q =
     (if 0 \<le> q then of_int \<lfloor>q * 100 + 1 / 2\<rfloor> / 100
      else - (of_int \<lfloor>- q * 100 + 1 / 2\<rfloor> / 100))"

definition weight_fits :: "jsnum option \<Rightarrow> bool" where
  "weight_fits w =
     (case w of
        Some (Fin q) \<Rightarrow> \<bar>DECIMAL_5_2 q\<bar> < 1000
      | _ \<Rightarrow> True)"

definition weight_stored :: "jsnum option \<Rightarrow> jsnum option" where
  "weight_stored w =
     (case w of
        Some (Fin q) \<Rightarrow> Some (Fin (DECIMAL_5_2 q))
      | _ \<Rightarrow> None)"

text \<open>\<^verbatim>\<open>from('workouts').insert({name, description, user_id}).select().single()\<close>:
  the columns not given take their defaults (fresh id, current time, no completion
  time), and the inserted row is returned.\<close>

definition insert_workout ::
  "env \<Rightarrow> store \<Rightarrow> jsstring \<Rightarrow> jsstring option \<Rightarrow> uuid \<Rightarrow> (string + workout_row) \<times> store" where
  "insert_workout E s nm descr uid =
     (case fails E (calls s) of
        Some msg \<Rightarrow> (Inl msg, called s)
      | None \<Rightarrow>
          (let row = \<lparr>w_id = next_id s, w_user_id = uid, w_name = nm, w_description = descr,
                      w_created_at = clock E (calls s), w_completed_at = None\<rparr>
           in (Inr row,
               called (s\<lparr>tbl_workouts := tbl_workouts s @ [row], next_id := next_id s + 1\<rparr>))))"

text \<open>\<^verbatim>\<open>from('workout_exercises').insert({workout_id, exercise_id, order}).select().single()\<close>.\<close>

definition insert_workout_exercise ::
  "env \<Rightarrow> store \<Rightarrow> uuid \<Rightarrow> uuid \<Rightarrow> nat \<Rightarrow> (string + workout_exercise_row) \<times> store" where
  "insert_workout_exercise E s wid eid ord =
     (case fails E (calls s) of
        Some msg \<Rightarrow> (Inl msg, called s)
      | None \<Rightarrow>
          (let row = \<lparr>we_id = next_id s, we_workout_id = wid, we_exercise_id = eid,
                      we_order = ord, we_created_at = clock E (calls s)\<rparr>
           in (Inr row,
               called (s\<lparr>tbl_workout_exercises := tbl_workout_exercises s @ [row],
                         next_id := next_id s + 1\<rparr>))))"

text \<open>
  \<^verbatim>\<open>from('sets').insert(rows)\<close>: one call inserts the whole batch, or nothing if the
  database refuses a value of one of its rows. A payload row is
  \<^verbatim>\<open>{workout_exercise_id, weight, reps, completed}\<close>; a weight that is \<^verbatim>\<open>undefined\<close>
  is \<open>None\<close> here.
\<close>

record set_payload =
  p_workout_exercise_id :: uuid
  p_weight :: "jsnum option"
  p_reps :: jsnum
  p_completed :: bool

fun stamp_sets :: "uuid \<Rightarrow> timestamp \<Rightarrow> set_payload list \<Rightarrow> set_row list" where
  "stamp_sets i t [] = []"
| "stamp_sets i t (p # ps) =
     \<lparr>s_id = i, s_workout_exercise_id = p_workout_exercise_id p,
      s_weight = weight_stored (p_weight p), s_reps = p_reps p,
      s_completed = p_completed p, s_created_at = t\<rparr>
     # stamp_sets (i + 1) t ps"

definition payload_fits :: "set_payload \<Rightarrow> bool" where
  "payload_fits p \<longleftrightarrow> weight_fits (p_weight p) \<and> reps_fits (p_reps p)"

definition insert_sets :: "env \<Rightarrow> store \<Rightarrow> set_payload list \<Rightarrow> (string + unit) \<times> store" where
  "insert_sets E s ps =
     (case fails E (calls s) of
        Some msg \<Rightarrow> (Inl msg, called s)
      | None \<Rightarrow>
          if list_all payload_fits ps
          then (Inr (),
                called (s\<lparr>tbl_sets := tbl_sets s @ stamp_sets (next_id s) (clock E (calls s)) ps,
                          next_id := next_id s + length ps\<rparr>))
          else (Inl (refusal E (calls s)), called s))"

section \<open>CreateWorkoutScreen: the workout composer\<close>

text \<open>What the screen shows when an operation ends: \<^verbatim>\<open>Alert.alert(title, message)\<close>.\<close>

datatype alert = Alert string string

record CreateSetForm =
  weight :: "jsnum option"
  reps :: jsnum

record CreateExerciseForm =
  exercise_id :: uuid
  sets :: "CreateSetForm list"

definition setsToInsert :: "uuid \<Rightarrow> CreateSetForm list \<Rightarrow> set_payload list" where
  "setsToInsert weid fs =
     map (\<lambda>f. \<lparr>p_workout_exercise_id = weid, p_weight = weight f, p_reps = reps f,
               p_completed = False\<rparr>) fs"

text \<open>The loop \<^verbatim>\<open>for (let i = 0; i < selectedExercises.length; i++)\<close>, from index \<open>i\<close>
  over the exercises still to be written. A failed call throws, and the \<^verbatim>\<open>catch\<close> block
  shows the error's message.\<close>

fun addExercises :: "env \<Rightarrow> store \<Rightarrow> uuid \<Rightarrow> nat \<Rightarrow> CreateExerciseForm list \<Rightarrow> alert \<times> store" where
  "addExercises E s wid i [] = (Alert ''Success'' ''Workout created successfully!'', s)"
| "addExercises E s wid i (exerciseForm # rest) =
     (case insert_workout_exercise E s wid (exercise_id exerciseForm) i of
        (Inl weError, s1) \<Rightarrow> (Alert ''Error'' weError, s1)
      | (Inr workoutExerciseData, s1) \<Rightarrow>
          (case insert_sets E s1 (setsToInsert (we_id workoutExerciseData) (sets exerciseForm)) of
             (Inl setsError, s2) \<Rightarrow> (Alert ''Error'' setsError, s2)
           | (Inr _, s2) \<Rightarrow> addExercises E s2 wid (i + 1) rest))"

text \<open>\<open>user\<close> is the signed-in user's id: the screen is only mounted for one.\<close>

definition createWorkout ::
  "env \<Rightarrow> store \<Rightarrow> uuid \<Rightarrow> jsstring \<Rightarrow> jsstring \<Rightarrow> CreateExerciseForm list \<Rightarrow> alert \<times> store" where
  "createWorkout E s user workoutName workoutDescription selectedExercises =
     (if trim workoutName = [] then (Alert ''Error'' ''Please enter a workout name'', s)
      else if length selectedExercises = 0
        then (Alert ''Error'' ''Please add at least one exercise'', s)
      else
        (case insert_workout E s (trim workoutName)
                (if trim workoutDescription = [] then None else Some (trim workoutDescription))
                user of
           (Inl workoutError, s1) \<Rightarrow> (Alert ''Error'' workoutError, s1)
         | (Inr workoutData, s1) \<Rightarrow> addExercises E s1 (w_id workoutData) 0 selectedExercises))"

section \<open>WorkoutDetailScreen: reading a workout\<close>

text \<open>What the nested selects return: a set as \<^verbatim>\<open>{id, weight, reps, completed, created_at}\<close>,
  an exercise of the workout with its sets, and the workout with its exercises
  (\<^verbatim>\<open>WorkoutWithExercises\<close>).\<close>

record SetView =
  sv_id :: uuid
  sv_weight :: "jsnum option"
  sv_reps :: jsnum
  sv_completed :: bool
  sv_created_at :: timestamp

record ExerciseView =
  workout_exercise_id :: uuid
  ex_id :: uuid
  ex_name :: jsstring
  ex_description :: "jsstring option"
  ex_sets :: "SetView list"

record WorkoutWithExercises =
  wv_row :: workout_row
  exercises :: "ExerciseView list"

text \<open>\<^verbatim>\<open>PreviousSet = { weight?: number | null; reps?: number | null }\<close>.\<close>

record PreviousSet =
  pv_weight :: "jsnum option"
  pv_reps :: "jsnum option"

text \<open>
  The state of the screen: the route parameter, the loaded workout (\<^verbatim>\<open>null\<close> until the
  first fetch succeeds), the loading flag and the previous sets per exercise id. The text
  typed into the fields (\<^verbatim>\<open>inputValues\<close>) only echoes the sets; the handlers below
  receive the text of their field as an argument. A handler is one step here, from its
  request to the update of the screen; the \<^verbatim>\<open>updating\<close> flag, which disables the
  fields and the check marks of the sets while a request is under way, is therefore not
  kept. The footer button does not consult it.
\<close>

record detail_screen =
  workoutId :: uuid
  workout :: "WorkoutWithExercises option"
  loading :: bool
  previousByExerciseId :: "uuid \<rightharpoonup> PreviousSet list"

text \<open>The state in which the screen is mounted for a workout id.\<close>

definition mounted :: "uuid \<Rightarrow> detail_screen" where
  "mounted wid = \<lparr>workoutId = wid, workout = None, loading = True,
                   previousByExerciseId = Map.empty\<rparr>"

text \<open>\<^verbatim>\<open>from('workouts').select('*').eq('id', workoutId).single()\<close>: an error unless
  exactly one row matches.\<close>

definition single_row_error :: string where
  "single_row_error = ''JSON object requested, multiple (or no) rows returned''"

definition select_workout :: "env \<Rightarrow> store \<Rightarrow> uuid \<Rightarrow> (string + workout_row) \<times> store" where
  "select_workout E s wid =
     (case fails E (calls s) of
        Some msg \<Rightarrow> (Inl msg, called s)
      | None \<Rightarrow>
          (case filter (\<lambda>w. w_id w = wid) (tbl_workouts s) of
             [w] \<Rightarrow> (Inr w, called s)
           | _ \<Rightarrow> (Inl single_row_error, called s)))"

text \<open>
  \<^verbatim>\<open>from('workout_exercises').select(`id, order, exercises (id, name, description),
  sets (id, weight, reps, completed, created_at)`).eq('workout_id', workoutId).order('order')\<close>:
  each row of the workout with the exercise it references (none if the reference
  dangles) and the sets that reference it.
\<close>

record joined_exercise =
  j_id :: uuid
  j_order :: nat
  j_exercises :: "exercise_row option"
  j_sets :: "SetView list"

definition set_view :: "set_row \<Rightarrow> SetView" where
  "set_view r = \<lparr>sv_id = s_id r, sv_weight = s_weight r, sv_reps = s_reps r,
                 sv_completed = s_completed r, sv_created_at = s_created_at r\<rparr>"

definition sets_of :: "store \<Rightarrow> uuid \<Rightarrow> set_row list" where
  "sets_of s weid = filter (\<lambda>r. s_workout_exercise_id r = weid) (tbl_sets s)"

definition join_exercise :: "store \<Rightarrow> workout_exercise_row \<Rightarrow> joined_exercise" where
  "join_exercise s we =
     \<lparr>j_id = we_id we, j_order = we_order we,
      j_exercises = find (\<lambda>e. e_id e = we_exercise_id we) (tbl_exercises s),
      j_sets = map set_view (sets_of s (we_id we))\<rparr>"

definition select_workout_exercises ::
  "env \<Rightarrow> store \<Rightarrow> uuid \<Rightarrow> (string + joined_exercise list) \<times> store" where
  "select_workout_exercises E s wid =
     (case fails E (calls s) of
        Some msg \<Rightarrow> (Inl msg, called s)
      | None \<Rightarrow>
          (Inr (map (join_exercise s)
                  (sort_key we_order
                     (filter (\<lambda>we. we_workout_id we = wid) (tbl_workout_exercises s)))),
           called s))"

text \<open>
  The previous-performance query of \<^verbatim>\<open>fetchWorkoutDetails\<close>:
  \<^verbatim>\<open>from('workout_exercises').select(`id, sets (id, weight, reps, created_at),
  workouts!inner (created_at, user_id)`).eq('exercise_id', ex.id)
  .lt('workouts.created_at', workoutData.created_at).eq('workouts.user_id', workoutData.user_id)
  .order('created_at', { referencedTable: 'workouts', ascending: false }).limit(1)\<close>.

  The rows selected are rows of \<^verbatim>\<open>workout_exercises\<close>. The two filters on
  \<^verbatim>\<open>workouts.*\<close> restrict the embedded parent, and \<^verbatim>\<open>!inner\<close> drops the rows whose
  parent does not pass them. The \<^verbatim>\<open>order\<close> call names a referenced table: the client
  sends it as \<^verbatim>\<open>workouts.order=created_at.desc\<close>, which sorts the embedded
  \<^verbatim>\<open>workouts\<close> rows inside each result row and leaves the order of the result rows
  alone (the client's documentation: ordering with \<^verbatim>\<open>referencedTable\<close> does not affect
  the ordering of the parent table). Each row embeds exactly one parent, so that sort
  changes nothing. \<^verbatim>\<open>limit(1)\<close> names no referenced table and cuts the result rows.
  With no ordering of their own the result rows come in the order the store scans them;
  the tables here are kept in insertion order and scanned in it.
\<close>

record prev_set_row =
  ps_id :: uuid
  ps_weight :: "jsnum option"
  ps_reps :: jsnum
  ps_created_at :: timestamp

record prev_workout_exercise =
  pw_id :: uuid
  pw_sets :: "prev_set_row list"
  pw_workouts :: "timestamp \<times> uuid"

definition prev_set :: "set_row \<Rightarrow> prev_set_row" where
  "prev_set r = \<lparr>ps_id = s_id r, ps_weight = s_weight r, ps_reps = s_reps r,
                 ps_created_at = s_created_at r\<rparr>"

definition inner_workouts :: "store \<Rightarrow> workout_exercise_row \<Rightarrow> timestamp \<Rightarrow> uuid \<Rightarrow> workout_row list" where
  "inner_workouts s we before user =
     sort_key (\<lambda>w. - w_created_at w)
       (filter (\<lambda>w. w_id w = we_workout_id we \<and> w_created_at w < before \<and> w_user_id w = user)
          (tbl_workouts s))"

definition previous_rows ::
  "store \<Rightarrow> uuid \<Rightarrow> timestamp \<Rightarrow> uuid \<Rightarrow> prev_workout_exercise list" where
  "previous_rows s exid before user =
     take 1
       (concat
          (map (\<lambda>we. case inner_workouts s we before user of
                        [] \<Rightarrow> []
                      | w # _ \<Rightarrow> [\<lparr>pw_id = we_id we,
                                    pw_sets = map prev_set (sets_of s (we_id we)),
                                    pw_workouts = (w_created_at w, w_user_id w)\<rparr>])
               (filter (\<lambda>we. we_exercise_id we = exid) (tbl_workout_exercises s))))"

definition select_previous ::
  "env \<Rightarrow> store \<Rightarrow> uuid \<Rightarrow> timestamp \<Rightarrow> uuid \<Rightarrow> (string + prev_workout_exercise list) \<times> store" where
  "select_previous E s exid before user =
     (case fails E (calls s) of
        Some msg \<Rightarrow> (Inl msg, called s)
      | None \<Rightarrow> (Inr (previous_rows s exid before user), called s))"

text \<open>
  What \<^verbatim>\<open>fetchWorkoutDetails\<close> makes of the answer:
  \<^verbatim>\<open>if (!prevErr && prevWe && prevWe.length > 0)\<close> the sets of the first row, sorted by
  \<^verbatim>\<open>created_at\<close> (\<^verbatim>\<open>Array.prototype.sort\<close> is stable) and cut down to weight and reps;
  the empty list otherwise.
\<close>

definition previousSets :: "string + prev_workout_exercise list \<Rightarrow> PreviousSet list" where
  "previousSets answer =
     (case answer of
        Inr (prevWe0 # _) \<Rightarrow>
          map (\<lambda>r. \<lparr>pv_weight = ps_weight r, pv_reps = Some (ps_reps r)\<rparr>)
              (sort_key ps_created_at (pw_sets prevWe0))
      | _ \<Rightarrow> [])"

text \<open>The lookups of \<^verbatim>\<open>Promise.all(exercises.map(...))\<close>: one call per exercise, issued
  in the order of the exercises; they only read, so the order of their answers does not
  matter.\<close>

fun fetchPrevious ::
  "env \<Rightarrow> store \<Rightarrow> workout_row \<Rightarrow> ExerciseView list \<Rightarrow> (uuid \<rightharpoonup> PreviousSet list)
     \<Rightarrow> (uuid \<rightharpoonup> PreviousSet list) \<times> store" where
  "fetchPrevious E s workoutData [] prevMap = (prevMap, s)"
| "fetchPrevious E s workoutData (ex # rest) prevMap =
     (case select_previous E s (ex_id ex) (w_created_at workoutData) (w_user_id workoutData) of
        (answer, s1) \<Rightarrow>
          fetchPrevious E s1 workoutData rest (prevMap(ex_id ex \<mapsto> previousSets answer)))"

text \<open>\<^verbatim>\<open>workoutExercises.map((we) => ({ ..., id: we.exercises.id, ...,
  sets: we.sets.sort(by created_at) }))\<close>; reading \<^verbatim>\<open>we.exercises.id\<close> throws when the
  embedded exercise is missing.\<close>

definition null_dereference :: string where
  "null_dereference = ''Cannot read property of null''"

fun transform :: "joined_exercise list \<Rightarrow> ExerciseView list option" where
  "transform [] = Some []"
| "transform (we # rest) =
     (case j_exercises we of
        None \<Rightarrow> None
      | Some e \<Rightarrow>
          (case transform rest of
             None \<Rightarrow> None
           | Some vs \<Rightarrow>
               Some (\<lparr>workout_exercise_id = j_id we, ex_id = e_id e, ex_name = e_name e,
                       ex_description = e_description e,
                       ex_sets = sort_key sv_created_at (j_sets we)\<rparr> # vs)))"

definition fetchWorkoutDetails ::
  "env \<Rightarrow> store \<Rightarrow> detail_screen \<Rightarrow> alert option \<times> detail_screen \<times> store" where
  "fetchWorkoutDetails E s scr =
     (case select_workout E s (workoutId scr) of
        (Inl workoutError, s1) \<Rightarrow> (Some (Alert ''Error'' workoutError), scr\<lparr>loading := False\<rparr>, s1)
      | (Inr workoutData, s1) \<Rightarrow>
          (case select_workout_exercises E s1 (workoutId scr) of
             (Inl weError, s2) \<Rightarrow> (Some (Alert ''Error'' weError), scr\<lparr>loading := False\<rparr>, s2)
           | (Inr workoutExercises, s2) \<Rightarrow>
               (case transform workoutExercises of
                  None \<Rightarrow> (Some (Alert ''Error'' null_dereference), scr\<lparr>loading := False\<rparr>, s2)
                | Some exs \<Rightarrow>
                    (case fetchPrevious E s2 workoutData exs Map.empty of
                       (prevMap, s3) \<Rightarrow>
                         (None,
                          scr\<lparr>workout := Some \<lparr>wv_row = workoutData, exercises = exs\<rparr>,
                              previousByExerciseId := prevMap, loading := False\<rparr>,
                          s3)))))"

section \<open>WorkoutDetailScreen: editing sets\<close>

text \<open>
  \<^verbatim>\<open>from('sets').update(fields).eq('id', setId)\<close>, where \<^verbatim>\<open>fields\<close> is
  \<^verbatim>\<open>{completed}\<close>, \<^verbatim>\<open>{reps}\<close> or \<^verbatim>\<open>{weight}\<close>: the rows with that id are changed, the
  others are left as they are. The database checks a value when it writes it to a row,
  so it refuses the call when a row has the id and the value does not fit the column;
  then no row is changed.
\<close>

datatype set_update = Set_completed bool | Set_reps jsnum | Set_weight "jsnum option"

fun update_fits :: "set_update \<Rightarrow> bool" where
  "update_fits (Set_completed b) = True"
| "update_fits (Set_reps x) = reps_fits x"
| "update_fits (Set_weight w) = weight_fits w"

fun write_set :: "set_update \<Rightarrow> set_row \<Rightarrow> set_row" where
  "write_set (Set_completed b) r = r\<lparr>s_completed := b\<rparr>"
| "write_set (Set_reps x) r = r\<lparr>s_reps := x\<rparr>"
| "write_set (Set_weight w) r = r\<lparr>s_weight := weight_stored w\<rparr>"

definition update_set ::
  "env \<Rightarrow> store \<Rightarrow> uuid \<Rightarrow> set_update \<Rightarrow> (string + unit) \<times> store" where
  "update_set E s setId upd =
     (case fails E (calls s) of
        Some msg \<Rightarrow> (Inl msg, called s)
      | None \<Rightarrow>
          if list_ex (\<lambda>r. s_id r = setId) (tbl_sets s) \<and> \<not> update_fits upd
          then (Inl (refusal E (calls s)), called s)
          else (Inr (),
                called (s\<lparr>tbl_sets := map (\<lambda>r. if s_id r = setId then write_set upd r else r)
                                           (tbl_sets s)\<rparr>)))"

text \<open>The update of the local state that follows a successful store call:
  \<^verbatim>\<open>exercises.map((exercise) => ({ ...exercise, sets: exercise.sets.map((set) =>
  set.id === setId ? { ...set, field: value } : set) }))\<close>; nothing happens while no workout
  is loaded.\<close>

definition update_local ::
  "detail_screen \<Rightarrow> uuid \<Rightarrow> (SetView \<Rightarrow> SetView) \<Rightarrow> detail_screen" where
  "update_local scr setId change =
     (case workout scr of
        None \<Rightarrow> scr
      | Some w \<Rightarrow>
          scr\<lparr>workout := Some (w\<lparr>exercises :=
                 map (\<lambda>exercise. exercise\<lparr>ex_sets :=
                        map (\<lambda>set. if sv_id set = setId then change set else set)
                            (ex_sets exercise)\<rparr>)
                     (exercises w)\<rparr>)\<rparr>)"

definition toggleSetCompletion ::
  "env \<Rightarrow> store \<Rightarrow> detail_screen \<Rightarrow> uuid \<Rightarrow> bool \<Rightarrow> alert option \<times> detail_screen \<times> store" where
  "toggleSetCompletion E s scr setId completed =
     (case update_set E s setId (Set_completed (\<not> completed)) of
        (Inl error, s1) \<Rightarrow> (Some (Alert ''Error'' error), scr, s1)
      | (Inr _, s1) \<Rightarrow>
          (None, update_local scr setId (\<lambda>set. set\<lparr>sv_completed := \<not> completed\<rparr>), s1))"

text \<open>\<^verbatim>\<open>const safeReps = Math.max(0, Math.floor(newReps || 0))\<close>.\<close>

definition safeReps :: "jsnum \<Rightarrow> jsnum" where
  "safeReps newReps = Math_max0 (Math_floor (or_zero newReps))"

definition updateSetReps ::
  "env \<Rightarrow> store \<Rightarrow> detail_screen \<Rightarrow> uuid \<Rightarrow> jsnum \<Rightarrow> alert option \<times> detail_screen \<times> store" where
  "updateSetReps E s scr setId newReps =
     (case update_set E s setId (Set_reps (safeReps newReps)) of
        (Inl error, s1) \<Rightarrow> (Some (Alert ''Error'' error), scr, s1)
      | (Inr _, s1) \<Rightarrow>
          (None, update_local scr setId (\<lambda>set. set\<lparr>sv_reps := safeReps newReps\<rparr>), s1))"

text \<open>\<^verbatim>\<open>const weightValue = newWeight === undefined || isNaN(newWeight) ? null :
  Number(newWeight)\<close>. The argument is optional: \<open>None\<close> is \<^verbatim>\<open>undefined\<close>. The value sent
  is a number or \<^verbatim>\<open>null\<close>, never \<^verbatim>\<open>undefined\<close>, so the request always carries the field
  and a \<^verbatim>\<open>null\<close> (here \<open>None\<close>) sets the column to NULL. The screen keeps the value
  sent, not the value that the column holds after rounding.\<close>

definition weightValue :: "jsnum option \<Rightarrow> jsnum option" where
  "weightValue newWeight =
     (case newWeight of
        None \<Rightarrow> None
      | Some x \<Rightarrow> if isNaN x then None else Some x)"

definition updateSetWeight ::
  "env \<Rightarrow> store \<Rightarrow> detail_screen \<Rightarrow> uuid \<Rightarrow> jsnum option \<Rightarrow> alert option \<times> detail_screen \<times> store" where
  "updateSetWeight E s scr setId newWeight =
     (case update_set E s setId (Set_weight (weightValue newWeight)) of
        (Inl error, s1) \<Rightarrow> (Some (Alert ''Error'' error), scr, s1)
      | (Inr _, s1) \<Rightarrow>
          (None, update_local scr setId (\<lambda>set. set\<lparr>sv_weight := weightValue newWeight\<rparr>), s1))"

text \<open>
  \<^verbatim>\<open>Number(text)\<close>: white space at both ends of the text is dropped, the same code units
  as for \<^verbatim>\<open>trim\<close>; what is left is read as a numeric literal, and the empty text as 0.
  How a literal that is not empty is read is left open: \<open>literal\<close> stands for it.
\<close>

definition Number :: "(jsstring \<Rightarrow> jsnum) \<Rightarrow> jsstring \<Rightarrow> jsnum" where
  "Number literal txt = (if trim txt = [] then Fin 0 else literal (trim txt))"

text \<open>
  The \<^verbatim>\<open>onEndEditing\<close> handlers of the two fields of a set. \<open>text\<close> is what the field
  holds (\<open>None\<close> when nothing was ever stored for it).
  \<^verbatim>\<open>currentInputs.weight === '' || currentInputs.weight == null ? undefined :
  Number(currentInputs.weight)\<close> and
  \<^verbatim>\<open>currentInputs.reps === '' || currentInputs.reps == null ? 0 : Number(currentInputs.reps)\<close>.
\<close>

definition weightOnEndEditing ::
  "(jsstring \<Rightarrow> jsnum) \<Rightarrow> env \<Rightarrow> store \<Rightarrow> detail_screen \<Rightarrow> uuid \<Rightarrow> jsstring option
     \<Rightarrow> alert option \<times> detail_screen \<times> store" where
  "weightOnEndEditing literal E s scr setId text_opt =
     updateSetWeight E s scr setId
       (case text_opt of
          None \<Rightarrow> None
        | Some txt \<Rightarrow> if txt = [] then None else Some (Number literal txt))"


section \<open>WorkoutDetailScreen: progress and completion\<close>

text \<open>\<^verbatim>\<open>workout.exercises.reduce((total, exercise) => total + exercise.sets.length, 0)\<close>
  and its companion; both are 0 while no workout is loaded.\<close>

definition getTotalSets :: "detail_screen \<Rightarrow> nat" where
  "getTotalSets scr =
     (case workout scr of
        None \<Rightarrow> 0
      | Some w \<Rightarrow> foldl (\<lambda>total exercise. total + length (ex_sets exercise)) 0 (exercises w))"

definition getCompletedSets :: "detail_screen \<Rightarrow> nat" where
  "getCompletedSets scr =
     (case workout scr of
        None \<Rightarrow> 0
      | Some w \<Rightarrow>
          foldl (\<lambda>total exercise. total + length (filter sv_completed (ex_sets exercise))) 0
                (exercises w))"

text \<open>
  The footer: \<^verbatim>\<open>{!workout.completed_at && (<TouchableOpacity onPress={completeWorkout}
  disabled={completedSets !== totalSets}> ...)}\<close>. The component returns a placeholder
  while it is loading or has no workout, so the button exists only for a loaded workout
  without a completion time, and it reacts only when the two counts agree.
\<close>

datatype button = Hidden | Disabled | Enabled

definition completeWorkoutButton :: "detail_screen \<Rightarrow> button" where
  "completeWorkoutButton scr =
     (if loading scr then Hidden
      else case workout scr of
        None \<Rightarrow> Hidden
      | Some w \<Rightarrow>
          if w_completed_at (wv_row w) \<noteq> None then Hidden
          else if getCompletedSets scr \<noteq> getTotalSets scr then Disabled
          else Enabled)"

text \<open>\<^verbatim>\<open>from('workouts').update({ completed_at: new Date().toISOString() }).eq('id',
  workoutId)\<close>; \<open>now\<close> is the time on the device.\<close>

definition update_completed_at ::
  "env \<Rightarrow> store \<Rightarrow> uuid \<Rightarrow> timestamp \<Rightarrow> (string + unit) \<times> store" where
  "update_completed_at E s wid now =
     (case fails E (calls s) of
        Some msg \<Rightarrow> (Inl msg, called s)
      | None \<Rightarrow>
          (Inr (),
           called (s\<lparr>tbl_workouts :=
                       map (\<lambda>w. if w_id w = wid then w\<lparr>w_completed_at := Some now\<rparr> else w)
                           (tbl_workouts s)\<rparr>)))"

definition completeWorkout ::
  "env \<Rightarrow> timestamp \<Rightarrow> store \<Rightarrow> detail_screen \<Rightarrow> alert option \<times> detail_screen \<times> store" where
  "completeWorkout E now s scr =
     (case update_completed_at E s (workoutId scr) now of
        (Inl error, s1) \<Rightarrow> (Some (Alert ''Error'' error), scr, s1)
      | (Inr _, s1) \<Rightarrow> (Some (Alert ''Success'' ''Workout completed!''), scr, s1))"

text \<open>A press on the footer button: \<open>completeWorkout\<close> runs only if the button is there
  and enabled.\<close>

definition pressCompleteWorkout ::
  "env \<Rightarrow> timestamp \<Rightarrow> store \<Rightarrow> detail_screen \<Rightarrow> alert option \<times> detail_screen \<times> store" where
  "pressCompleteWorkout E now s scr =
     (if completeWorkoutButton scr = Enabled then completeWorkout E now s scr
      else (None, scr, s))"

section \<open>Double-precision arithmetic on counts\<close>

text \<open>
  The percentages are computed with \<^verbatim>\<open>/\<close> and \<^verbatim>\<open>*\<close> on numbers, that is in IEEE
  double precision: each operation returns the double nearest to the exact result, ties
  going to the even mantissa. The operands here are counts of sets and the constant 100,
  so only non-negative finite doubles occur; one is kept as a mantissa \<open>m\<close> and an
  exponent \<open>e\<close>, with value \<open>m * 2 ^ e\<close>. Counts are far below \<open>2 ^ 53\<close> and are doubles
  themselves; quotients of counts and their products with 100 stay in the normal range.
\<close>

type_synonym double = "nat \<times> int"

definition num :: "nat \<Rightarrow> double" where
  "num n = (n, 0)"

definition pow2 :: "int \<Rightarrow> rat" where
  "pow2 e = (if 0 \<le> e then 2 ^ nat e else 1 / 2 ^ nat (- e))"

definition double_value :: "double \<Rightarrow> rat" where
  "double_value x = of_nat (fst x) * pow2 (snd x)"

text \<open>The number of binary digits of a natural number.\<close>

fun bits :: "nat \<Rightarrow> nat" where
  "bits n = (if n = 0 then 0 else Suc (bits (n div 2)))"

declare bits.simps [simp del]

text \<open>The integer nearest to the fraction \<open>N / D\<close> (\<open>D\<close> positive), a tie going to the
  even one.\<close>

definition round_to_even :: "nat \<Rightarrow> nat \<Rightarrow> nat" where
  "round_to_even N D =
     (if 2 * (N mod D) < D \<or> (2 * (N mod D) = D \<and> even (N div D)) then N div D
      else N div D + 1)"

text \<open>
  The double nearest to the fraction \<open>n / d\<close> (\<open>d\<close> positive). The exponent is chosen so
  that the mantissa has 53 binary digits: with \<open>e0\<close> as below the scaled fraction \<open>N / D\<close>
  lies between \<open>2 ^ 52\<close> and \<open>2 ^ 54\<close>, and it is halved once more if it reaches \<open>2 ^ 53\<close>.
  The mantissa is the scaled fraction rounded to the nearest integer, ties to even.
\<close>

definition nearest_double :: "nat \<Rightarrow> nat \<Rightarrow> double" where
  "nearest_double n d =
     (if n = 0 then (0, 0)
      else
        (let e0 = int (bits n) - int (bits d) - 53;
             N = (if e0 < 0 then n * 2 ^ nat (- e0) else n);
             D = (if e0 < 0 then d else d * 2 ^ nat e0)
         in if N div D < 2 ^ 53 then (round_to_even N D, e0)
            else (round_to_even N (2 * D), e0 + 1)))"

text \<open>\<^verbatim>\<open>x / y\<close> (for \<open>y\<close> not zero) and \<^verbatim>\<open>x * y\<close>.\<close>

definition js_div :: "double \<Rightarrow> double \<Rightarrow> double" where
  "js_div x y =
     nearest_double (fst x * 2 ^ nat (snd x - snd y)) (fst y * 2 ^ nat (snd y - snd x))"

definition js_mul :: "double \<Rightarrow> double \<Rightarrow> double" where
  "js_mul x y =
     nearest_double (fst x * fst y * 2 ^ nat (snd x + snd y)) (2 ^ nat (- (snd x + snd y)))"

text \<open>\<^verbatim>\<open>Math.round(x)\<close>: the integer nearest to \<open>x\<close>, a tie going up; exact on the
  value of the double.\<close>

definition Math_round :: "double \<Rightarrow> int" where
  "Math_round x =
     (if 0 \<le> snd x then int (fst x) * 2 ^ nat (snd x)
      else (2 * int (fst x) + 2 ^ nat (- snd x)) div 2 ^ nat (1 - snd x))"

text \<open>\<^verbatim>\<open>totalSets > 0 ? (completedSets / totalSets) * 100 : 0\<close>.\<close>

definition percentage :: "nat \<Rightarrow> nat \<Rightarrow> double" where
  "percentage completedSets totalSets =
     (if totalSets > 0 then js_mul (js_div (num completedSets) (num totalSets)) (num 100)
      else num 0)"

text \<open>The detail screen: \<^verbatim>\<open>progressPercentage\<close> and the text
  \<^verbatim>\<open>{Math.round(progressPercentage)}% complete\<close>.\<close>

definition progressPercentage :: "detail_screen \<Rightarrow> double" where
  "progressPercentage scr = percentage (getCompletedSets scr) (getTotalSets scr)"

definition percentComplete :: "detail_screen \<Rightarrow> int" where
  "percentComplete scr = Math_round (progressPercentage scr)"

section \<open>WorkoutDetailScreen: the column of previous sets\<close>

text \<open>
  \<^verbatim>\<open>const prev = prevSets[setIndex]; const prevText = prev && prev.weight != null &&
  prev.reps != null ? `${prev.weight}x${prev.reps}` : '-'\<close>. An index past the end reads
  \<^verbatim>\<open>undefined\<close>. \<open>String\<close> is the language's conversion of a number to text.
\<close>

definition prevText :: "(jsnum \<Rightarrow> string) \<Rightarrow> PreviousSet list \<Rightarrow> nat \<Rightarrow> string" where
  "prevText String prevSets setIndex =
     (if setIndex < length prevSets
      then (case (pv_weight (prevSets ! setIndex), pv_reps (prevSets ! setIndex)) of
              (Some w, Some r) \<Rightarrow> String w @ ''x'' @ String r
            | _ \<Rightarrow> ''-'')
      else ''-'')"

text \<open>\<^verbatim>\<open>const prevSets = previousByExerciseId[exercise.id] || []\<close> and the cells
  \<^verbatim>\<open>exercise.sets.map((set, setIndex) => ... prevText ...)\<close> of one exercise card.\<close>

definition previousColumn :: "(jsnum \<Rightarrow> string) \<Rightarrow> detail_screen \<Rightarrow> ExerciseView \<Rightarrow> string list" where
  "previousColumn String scr exercise =
     (let prevSets = (case previousByExerciseId scr (ex_id exercise) of
                        None \<Rightarrow> []
                      | Some ps \<Rightarrow> ps)
      in map (\<lambda>setIndex. prevText String prevSets setIndex) [0 ..< length (ex_sets exercise)])"

section \<open>WorkoutHistoryScreen\<close>

datatype history_filter = F_all | F_completed | F_incomplete

text \<open>
  \<^verbatim>\<open>from('workouts').select(`*, workout_exercises (exercises (name), sets (completed,
  weight, reps))`).eq('user_id', user.id).order('created_at', { ascending: false })\<close>, then
  \<^verbatim>\<open>.not('completed_at', 'is', null)\<close> for the filter \<^verbatim>\<open>'completed'\<close> and
  \<^verbatim>\<open>.is('completed_at', null)\<close> for \<^verbatim>\<open>'incomplete'\<close>.
\<close>

definition passes :: "history_filter \<Rightarrow> workout_row \<Rightarrow> bool" where
  "passes flt w =
     (case flt of
        F_completed \<Rightarrow> w_completed_at w \<noteq> None
      | F_incomplete \<Rightarrow> w_completed_at w = None
      | F_all \<Rightarrow> True)"

definition history_rows :: "store \<Rightarrow> uuid \<Rightarrow> history_filter \<Rightarrow> workout_row list" where
  "history_rows s user flt =
     filter (passes flt)
       (sort_key (\<lambda>w. - w_created_at w) (filter (\<lambda>w. w_user_id w = user) (tbl_workouts s)))"

record history_set =
  hs_completed :: bool
  hs_weight :: "jsnum option"
  hs_reps :: jsnum

record history_exercise =
  hx_name :: "jsstring option"
  hx_sets :: "history_set list"

definition nest_exercise :: "store \<Rightarrow> workout_exercise_row \<Rightarrow> history_exercise" where
  "nest_exercise s we =
     \<lparr>hx_name = map_option e_name (find (\<lambda>e. e_id e = we_exercise_id we) (tbl_exercises s)),
      hx_sets = map (\<lambda>r. \<lparr>hs_completed = s_completed r, hs_weight = s_weight r,
                           hs_reps = s_reps r\<rparr>)
                    (sets_of s (we_id we))\<rparr>"

definition select_history ::
  "env \<Rightarrow> store \<Rightarrow> uuid \<Rightarrow> history_filter
     \<Rightarrow> (string + (workout_row \<times> history_exercise list) list) \<times> store" where
  "select_history E s user flt =
     (case fails E (calls s) of
        Some msg \<Rightarrow> (Inl msg, called s)
      | None \<Rightarrow>
          (Inr (map (\<lambda>w. (w, map (nest_exercise s)
                               (filter (\<lambda>we. we_workout_id we = w_id w)
                                       (tbl_workout_exercises s))))
                    (history_rows s user flt)),
           called s))"

text \<open>The rows as the screen keeps them, with
  \<^verbatim>\<open>totalExercises\<close>, \<^verbatim>\<open>totalSets\<close> and \<^verbatim>\<open>completedSets\<close> added.\<close>

record history_item =
  h_row :: workout_row
  h_workout_exercises :: "history_exercise list"
  totalExercises :: nat
  totalSets :: nat
  completedSets :: nat

definition transformedWorkout :: "workout_row \<times> history_exercise list \<Rightarrow> history_item" where
  "transformedWorkout data =
     \<lparr>h_row = fst data, h_workout_exercises = snd data,
      totalExercises = length (snd data),
      totalSets = foldl (\<lambda>total we. total + length (hx_sets we)) 0 (snd data),
      completedSets =
        foldl (\<lambda>total we. total + length (filter hs_completed (hx_sets we))) 0 (snd data)\<rparr>"

record history_screen =
  workouts :: "history_item list"
  history_loading :: bool
  filter_choice :: history_filter

text \<open>A failed query is only logged: the list on the screen stays as it was.\<close>

definition fetchWorkoutHistory ::
  "env \<Rightarrow> store \<Rightarrow> uuid \<Rightarrow> history_screen \<Rightarrow> history_screen \<times> store" where
  "fetchWorkoutHistory E s user scr =
     (case select_history E s user (filter_choice scr) of
        (Inl error, s1) \<Rightarrow> (scr\<lparr>history_loading := False\<rparr>, s1)
      | (Inr data, s1) \<Rightarrow>
          (scr\<lparr>workouts := map transformedWorkout data, history_loading := False\<rparr>, s1))"

record workout_stats =
  st_totalWorkouts :: nat
  st_completedWorkouts :: nat
  st_totalSets :: nat
  st_completedSets :: nat
  st_completionRate :: int

definition getWorkoutStats :: "history_screen \<Rightarrow> workout_stats" where
  "getWorkoutStats scr =
     (let totalWorkouts = length (workouts scr);
          completedWorkouts =
            length (filter (\<lambda>w. w_completed_at (h_row w) \<noteq> None) (workouts scr));
          totalSets = foldl (\<lambda>sum w. sum + totalSets w) 0 (workouts scr);
          completedSets = foldl (\<lambda>sum w. sum + completedSets w) 0 (workouts scr)
      in \<lparr>st_totalWorkouts = totalWorkouts, st_completedWorkouts = completedWorkouts,
          st_totalSets = totalSets, st_completedSets = completedSets,
          st_completionRate = Math_round (percentage completedSets totalSets)\<rparr>)"

section \<open>The events of the application\<close>

text \<open>
  What can happen to the store and to the detail screen: the composer runs, the detail
  screen is opened for a workout (it is mounted and fetches), a set is toggled or edited,
  or the footer button is pressed. The history screen only reads.
\<close>

datatype event =
    CreateWorkout uuid jsstring jsstring "CreateExerciseForm list"
  | OpenWorkoutDetail uuid
  | ToggleSetCompletion uuid bool
  | EditReps uuid jsnum
  | EditWeight uuid "jsnum option"
  | PressCompleteWorkout timestamp

definition step :: "env \<Rightarrow> event \<Rightarrow> store \<times> detail_screen \<Rightarrow> store \<times> detail_screen" where
  "step E ev st =
     (case st of (s, scr) \<Rightarrow>
        (case ev of
           CreateWorkout user nm descr sels \<Rightarrow> (snd (createWorkout E s user nm descr sels), scr)
         | OpenWorkoutDetail wid \<Rightarrow>
             (case fetchWorkoutDetails E s (mounted wid) of (a, scr', s') \<Rightarrow> (s', scr'))
         | ToggleSetCompletion setId completed \<Rightarrow>
             (case toggleSetCompletion E s scr setId completed of (a, scr', s') \<Rightarrow> (s', scr'))
         | EditReps setId newReps \<Rightarrow>
             (case updateSetReps E s scr setId newReps of (a, scr', s') \<Rightarrow> (s', scr'))
         | EditWeight setId newWeight \<Rightarrow>
             (case updateSetWeight E s scr setId newWeight of (a, scr', s') \<Rightarrow> (s', scr'))
         | PressCompleteWorkout now \<Rightarrow>
             (case pressCompleteWorkout E now s scr of (a, scr', s') \<Rightarrow> (s', scr'))))"

text \<open>
  The states in which the detail screen can be: as it is mounted, and as any event leaves
  it, whatever the store holds when the event is served. The store is shared and the
  handlers are asynchronous: other clients write to it, and a request of this client can
  be served while its answer has not been applied to the screen. What the screen holds
  is a copy, and nothing is assumed here about the store it meets.
\<close>

inductive reachable :: "env \<Rightarrow> detail_screen \<Rightarrow> bool" for E :: env where
  mounted_screen: "reachable E (mounted wid)"
| served_screen: "reachable E scr \<Longrightarrow> step E ev (s, scr) = (s', scr') \<Longrightarrow> reachable E scr'"

section \<open>Example data\<close>

definition store0 :: store where
  "store0 = \<lparr>tbl_exercises = [\<lparr>e_id = 1, e_name = [66, 101, 110, 99, 104], e_description = None\<rparr>,
                              \<lparr>e_id = 2, e_name = [83, 113, 117, 97, 116], e_description = None\<rparr>],
             tbl_workouts = [], tbl_workout_exercises = [], tbl_sets = [],
             next_id = 10, calls = 0\<rparr>"

definition env_ok :: env where
  "env_ok = \<lparr>fails = (\<lambda>n. None), refusal = (\<lambda>n. ''refused''),
              clock = (\<lambda>n. 1000 + int n)\<rparr>"

definition failing_at :: "nat \<Rightarrow> env" where
  "failing_at k = \<lparr>fails = (\<lambda>n. if n = k then Some ''network error'' else None),
                   refusal = (\<lambda>n. ''refused''), clock = (\<lambda>n. 1000 + int n)\<rparr>"

definition name0 :: jsstring where
  "name0 = [32, 76, 101, 103, 115, 32]"

definition draft0 :: "CreateExerciseForm list" where
  "draft0 = [\<lparr>exercise_id = 1, sets = [\<lparr>weight = None, reps = Fin 8\<rparr>,
                                       \<lparr>weight = Some (Fin 60), reps = Fin 5\<rparr>]\<rparr>,
             \<lparr>exercise_id = 2, sets = [\<lparr>weight = None, reps = Fin 8\<rparr>]\<rparr>]"

text \<open>A draft with a weight of three decimals, 52.555, and one whose reps are
  \<^verbatim>\<open>Infinity\<close>.\<close>

definition draft_decimals :: "CreateExerciseForm list" where
  "draft_decimals = [\<lparr>exercise_id = 1, sets = [\<lparr>weight = Some (Fin (10511 / 200)), reps = Fin 8\<rparr>]\<rparr>]"


definition store1 :: store where
  "store1 = \<lparr>tbl_exercises = tbl_exercises store0,
             tbl_workouts = [\<lparr>w_id = 10, w_user_id = 7, w_name = [76, 101, 103, 115],
                              w_description = None, w_created_at = 1000, w_completed_at = None\<rparr>],
             tbl_workout_exercises =
               [\<lparr>we_id = 11, we_workout_id = 10, we_exercise_id = 1, we_order = 0,
                 we_created_at = 1001\<rparr>,
                \<lparr>we_id = 14, we_workout_id = 10, we_exercise_id = 2, we_order = 1,
                 we_created_at = 1003\<rparr>],
             tbl_sets =
               [\<lparr>s_id = 12, s_workout_exercise_id = 11, s_weight = None, s_reps = Fin 8,
                 s_completed = False, s_created_at = 1002\<rparr>,
                \<lparr>s_id = 13, s_workout_exercise_id = 11, s_weight = Some (Fin 60), s_reps = Fin 5,
                 s_completed = False, s_created_at = 1002\<rparr>,
                \<lparr>s_id = 15, s_workout_exercise_id = 14, s_weight = None, s_reps = Fin 8,
                 s_completed = False, s_created_at = 1004\<rparr>],
             next_id = 16, calls = 5\<rparr>"

text \<open>After a second and a third workout with the first exercise: workout 20 is
  completed, workout 30 is the one in progress.\<close>

definition store2 :: store where
  "store2 = \<lparr>tbl_exercises = tbl_exercises store0,
             tbl_workouts =
               [\<lparr>w_id = 10, w_user_id = 7, w_name = [76, 101, 103, 115],
                 w_description = None, w_created_at = 1000, w_completed_at = None\<rparr>,
                \<lparr>w_id = 20, w_user_id = 7, w_name = [76, 101, 103, 115],
                 w_description = None, w_created_at = 2000, w_completed_at = Some 2500\<rparr>,
                \<lparr>w_id = 30, w_user_id = 7, w_name = [76, 101, 103, 115],
                 w_description = None, w_created_at = 3000, w_completed_at = None\<rparr>],
             tbl_workout_exercises =
               [\<lparr>we_id = 11, we_workout_id = 10, we_exercise_id = 1, we_order = 0,
                 we_created_at = 1001\<rparr>,
                \<lparr>we_id = 14, we_workout_id = 10, we_exercise_id = 2, we_order = 1,
                 we_created_at = 1003\<rparr>,
                \<lparr>we_id = 21, we_workout_id = 20, we_exercise_id = 1, we_order = 0,
                 we_created_at = 2001\<rparr>,
                \<lparr>we_id = 31, we_workout_id = 30, we_exercise_id = 1, we_order = 0,
                 we_created_at = 3001\<rparr>],
             tbl_sets =
               [\<lparr>s_id = 12, s_workout_exercise_id = 11, s_weight = Some (Fin 50), s_reps = Fin 8,
                 s_completed = False, s_created_at = 1002\<rparr>,
                \<lparr>s_id = 13, s_workout_exercise_id = 11, s_weight = Some (Fin 60), s_reps = Fin 5,
                 s_completed = False, s_created_at = 1002\<rparr>,
                \<lparr>s_id = 15, s_workout_exercise_id = 14, s_weight = None, s_reps = Fin 8,
                 s_completed = False, s_created_at = 1004\<rparr>,
                \<lparr>s_id = 22, s_workout_exercise_id = 21, s_weight = Some (Fin 65), s_reps = Fin 5,
                 s_completed = True, s_created_at = 2002\<rparr>,
                \<lparr>s_id = 32, s_workout_exercise_id = 31, s_weight = None, s_reps = Fin 8,
                 s_completed = False, s_created_at = 3002\<rparr>],
             next_id = 33, calls = 15\<rparr>"

definition history0 :: history_screen where
  "history0 = \<lparr>workouts = [], history_loading = True, filter_choice = F_all\<rparr>"

text \<open>The detail screen of workout 10 as \<open>fetchWorkoutDetails\<close> loads it from \<open>store1\<close>.\<close>

definition detail1 :: detail_screen where
  "detail1 =
     \<lparr>workoutId = 10,
      workout = Some
        \<lparr>wv_row = \<lparr>w_id = 10, w_user_id = 7, w_name = [76, 101, 103, 115],
                    w_description = None, w_created_at = 1000, w_completed_at = None\<rparr>,
         exercises =
           [\<lparr>workout_exercise_id = 11, ex_id = 1, ex_name = [66, 101, 110, 99, 104],
             ex_description = None,
             ex_sets = [\<lparr>sv_id = 12, sv_weight = None, sv_reps = Fin 8, sv_completed = False,
                          sv_created_at = 1002\<rparr>,
                        \<lparr>sv_id = 13, sv_weight = Some (Fin 60), sv_reps = Fin 5,
                          sv_completed = False, sv_created_at = 1002\<rparr>]\<rparr>,
            \<lparr>workout_exercise_id = 14, ex_id = 2, ex_name = [83, 113, 117, 97, 116],
             ex_description = None,
             ex_sets = [\<lparr>sv_id = 15, sv_weight = None, sv_reps = Fin 8, sv_completed = False,
                          sv_created_at = 1004\<rparr>]\<rparr>]\<rparr>,
      loading = False,
      previousByExerciseId = [1 \<mapsto> [], 2 \<mapsto> []]\<rparr>"

text \<open>A loaded workout with one exercise of \<open>t\<close> sets, \<open>c\<close> of them completed.\<close>

definition done_set :: SetView where
  "done_set = \<lparr>sv_id = 0, sv_weight = None, sv_reps = Fin 8, sv_completed = True,
                sv_created_at = 0\<rparr>"

definition open_set :: SetView where
  "open_set = \<lparr>sv_id = 0, sv_weight = None, sv_reps = Fin 8, sv_completed = False,
                sv_created_at = 0\<rparr>"

definition progress_screen :: "nat \<Rightarrow> nat \<Rightarrow> detail_screen" where
  "progress_screen c t =
     \<lparr>workoutId = 10,
      workout = Some
        \<lparr>wv_row = \<lparr>w_id = 10, w_user_id = 7, w_name = [76, 101, 103, 115],
                    w_description = None, w_created_at = 1000, w_completed_at = None\<rparr>,
         exercises =
           [\<lparr>workout_exercise_id = 11, ex_id = 1, ex_name = [66, 101, 110, 99, 104],
             ex_description = None,
             ex_sets = replicate c done_set @ replicate (t - c) open_set\<rparr>]\<rparr>,
      loading = False,
      previousByExerciseId = Map.empty\<rparr>"

text \<open>An exercise card with three sets, on a screen with a given list of previous sets
  for its exercise.\<close>

definition three_sets :: ExerciseView where
  "three_sets =
     \<lparr>workout_exercise_id = 41, ex_id = 1, ex_name = [66, 101, 110, 99, 104],
      ex_description = None,
      ex_sets = [\<lparr>sv_id = 42, sv_weight = None, sv_reps = Fin 8, sv_completed = False,
                   sv_created_at = 4002\<rparr>,
                 \<lparr>sv_id = 43, sv_weight = None, sv_reps = Fin 8, sv_completed = False,
                   sv_created_at = 4002\<rparr>,
                 \<lparr>sv_id = 44, sv_weight = None, sv_reps = Fin 8, sv_completed = False,
                   sv_created_at = 4002\<rparr>]\<rparr>"

definition with_previous :: "PreviousSet list \<Rightarrow> detail_screen" where
  "with_previous ps =
     \<lparr>workoutId = 40,
      workout = Some
        \<lparr>wv_row = \<lparr>w_id = 40, w_user_id = 7, w_name = [76, 101, 103, 115],
                    w_description = None, w_created_at = 4000, w_completed_at = None\<rparr>,
         exercises = [three_sets]\<rparr>,
      loading = False,
      previousByExerciseId = [1 \<mapsto> ps]\<rparr>"

text \<open>A workout whose composition stopped after the workout row, and the same workout
  as \<open>store1\<close> has it once every set is ticked.\<close>

definition store_header :: store where
  "store_header =
     \<lparr>tbl_exercises = tbl_exercises store0,
      tbl_workouts = [\<lparr>w_id = 10, w_user_id = 7, w_name = [76, 101, 103, 115],
                       w_description = None, w_created_at = 1000, w_completed_at = None\<rparr>],
      tbl_workout_exercises = [], tbl_sets = [], next_id = 11, calls = 2\<rparr>"

definition detail_header :: detail_screen where
  "detail_header =
     \<lparr>workoutId = 10,
      workout = Some
        \<lparr>wv_row = \<lparr>w_id = 10, w_user_id = 7, w_name = [76, 101, 103, 115],
                    w_description = None, w_created_at = 1000, w_completed_at = None\<rparr>,
         exercises = []\<rparr>,
      loading = False,
      previousByExerciseId = Map.empty\<rparr>"

definition store_done :: store where
  "store_done = store1\<lparr>tbl_sets := map (\<lambda>r. r\<lparr>s_completed := True\<rparr>) (tbl_sets store1)\<rparr>"

definition detail_done :: detail_screen where
  "detail_done =
     \<lparr>workoutId = 10,
      workout = Some
        \<lparr>wv_row = \<lparr>w_id = 10, w_user_id = 7, w_name = [76, 101, 103, 115],
                    w_description = None, w_created_at = 1000, w_completed_at = None\<rparr>,
         exercises =
           [\<lparr>workout_exercise_id = 11, ex_id = 1, ex_name = [66, 101, 110, 99, 104],
             ex_description = None,
             ex_sets = [\<lparr>sv_id = 12, sv_weight = None, sv_reps = Fin 8, sv_completed = True,
                          sv_created_at = 1002\<rparr>,
                        \<lparr>sv_id = 13, sv_weight = Some (Fin 60), sv_reps = Fin 5,
                          sv_completed = True, sv_created_at = 1002\<rparr>]\<rparr>,
            \<lparr>workout_exercise_id = 14, ex_id = 2, ex_name = [83, 113, 117, 97, 116],
             ex_description = None,
             ex_sets = [\<lparr>sv_id = 15, sv_weight = None, sv_reps = Fin 8, sv_completed = True,
                          sv_created_at = 1004\<rparr>]\<rparr>]\<rparr>,
      loading = False,
      previousByExerciseId = [1 \<mapsto> [], 2 \<mapsto> []]\<rparr>"

text \<open>
  A printer for numbers, to instantiate the conversion of a number to text in examples.
  It prints what the language prints for the numbers a \<^verbatim>\<open>DECIMAL(5,2)\<close> or
  \<^verbatim>\<open>INTEGER\<close> column holds: the digits of the integer part and up to two decimals,
  without trailing zeros.
\<close>

fun digits :: "nat \<Rightarrow> string" where
  "digits n = (if n < 10 then [''0123456789'' ! n] else digits (n div 10) @ [''0123456789'' ! (n mod 10)])"

declare digits.simps [simp del]

definition showNumber :: "jsnum \<Rightarrow> string" where
  "showNumber x =
     (case x of
        NaN \<Rightarrow> ''NaN''
      | PosInf \<Rightarrow> ''Infinity''
      | NegInf \<Rightarrow> ''-Infinity''
      | Fin q \<Rightarrow>
          (let k = nat \<lfloor>\<bar>q\<bar> * 100\<rfloor>; f = k mod 100
           in (if q < 0 \<and> 0 < k then ''-'' else '''')
              @ digits (k div 100)
              @ (if f = 0 then ''''
                 else if f mod 10 = 0 then ''.'' @ digits (f div 10)
                 else ''.'' @ digits (f div 10) @ digits (f mod 10))))"

section \<open>The rows of a complete run\<close>

text \<open>
  For the proofs about \<open>addExercises\<close>: the junction row and the set rows that each
  iteration writes when no call fails, given the call counter \<open>c\<close> and the next
  identifier \<open>n\<close> at its start.
\<close>

fun planned ::
  "env \<Rightarrow> nat \<Rightarrow> uuid \<Rightarrow> uuid \<Rightarrow> nat \<Rightarrow> CreateExerciseForm list
     \<Rightarrow> (workout_exercise_row \<times> set_row list) list" where
  "planned E c n wid i [] = []"
| "planned E c n wid i (f # fs) =
     (\<lparr>we_id = n, we_workout_id = wid, we_exercise_id = exercise_id f, we_order = i,
       we_created_at = clock E c\<rparr>,
      stamp_sets (n + 1) (clock E (c + 1)) (setsToInsert n (sets f)))
     # planned E (c + 2) (n + 1 + length (sets f)) wid (i + 1) fs"

section \<open>The calls of a composition\<close>

text \<open>
  For the statements about a composition that fails. A batch of sets of the draft fits
  when the database accepts the weight and the reps of each of its sets.

  \<open>loop_error E c fs j\<close> is the error of call \<open>j\<close> of the loop over the exercises \<open>fs\<close>,
  entered when \<open>c\<close> calls have been issued: call \<open>2 * i\<close> inserts the junction row of
  exercise \<open>i\<close> and call \<open>2 * i + 1\<close> its sets. A call fails on its own account, and an
  insert of sets also when the batch does not fit. \<open>call_error E c sels k\<close> is the error
  of call \<open>k\<close> of \<open>createWorkout\<close>: call 0 inserts the workout, and the calls of the loop
  follow.
\<close>

definition draft_fits :: "CreateSetForm list \<Rightarrow> bool" where
  "draft_fits fs = list_all (\<lambda>f. weight_fits (weight f) \<and> reps_fits (reps f)) fs"

definition loop_error :: "env \<Rightarrow> nat \<Rightarrow> CreateExerciseForm list \<Rightarrow> nat \<Rightarrow> string option" where
  "loop_error E c fs j =
     (case fails E (c + j) of
        Some msg \<Rightarrow> Some msg
      | None \<Rightarrow>
          if odd j \<and> j div 2 < length fs \<and> \<not> draft_fits (sets (fs ! (j div 2)))
          then Some (refusal E (c + j)) else None)"

definition call_error :: "env \<Rightarrow> nat \<Rightarrow> CreateExerciseForm list \<Rightarrow> nat \<Rightarrow> string option" where
  "call_error E c sels k =
     (case k of
        0 \<Rightarrow> fails E c
      | Suc j \<Rightarrow> loop_error E (c + 1) sels j)"

section \<open>The copy on the screen and the store\<close>

text \<open>
  The copy on the detail screen is current for a store when every set that the store has
  under a junction row of the screen's workout is in the copy, with the same completion
  mark.
\<close>

definition current :: "store \<Rightarrow> detail_screen \<Rightarrow> bool" where
  "current s scr \<longleftrightarrow>
     (\<forall>we \<in> set (tbl_workout_exercises s). we_workout_id we = workoutId scr \<longrightarrow>
        (\<forall>r \<in> set (tbl_sets s). s_workout_exercise_id r = we_id we \<longrightarrow>
           (\<exists>v ex sv. workout scr = Some v \<and> ex \<in> set (exercises v) \<and> sv \<in> set (ex_sets ex)
                      \<and> sv_id sv = s_id r \<and> sv_completed sv = s_completed r)))"

section \<open>Facts about the columns\<close>

lemma floor_rat_numeral [simp]:
  "\<lfloor>numeral a / numeral b :: rat\<rfloor> = numeral a div numeral b"
  using floor_divide_of_int_eq [of "numeral a" "numeral b", where ?'a = rat] by simp

lemma floor_rat_one_numeral [simp]:
  "\<lfloor>1 / numeral b :: rat\<rfloor> = 1 div numeral b"
  using floor_divide_of_int_eq [of 1 "numeral b", where ?'a = rat] by simp

lemma floor_rat_neg_numeral [simp]:
  "\<lfloor>- (numeral a / numeral b) :: rat\<rfloor> = - numeral a div numeral b"
  using floor_divide_of_int_eq [of "- numeral a" "numeral b", where ?'a = rat] by simp

lemma reps_fits_numeral [simp]:
  "reps_fits (Fin (numeral k)) \<longleftrightarrow> (numeral k :: rat) < 2 ^ 31"
  "reps_fits (Fin 0)" "reps_fits (Fin 1)"
  "\<not> reps_fits PosInf" "\<not> reps_fits NegInf" "\<not> reps_fits NaN"
  by (simp_all add: reps_fits_def)

lemma weight_fits_simps [simp]:
  "weight_fits None" "weight_fits (Some NaN)" "weight_fits (Some PosInf)"
  "weight_fits (Some NegInf)"
  "weight_fits (Some (Fin q)) \<longleftrightarrow> \<bar>DECIMAL_5_2 q\<bar> < 1000"
  by (simp_all add: weight_fits_def)

lemma weight_stored_simps [simp]:
  "weight_stored None = None" "weight_stored (Some NaN) = None"
  "weight_stored (Some PosInf) = None" "weight_stored (Some NegInf) = None"
  "weight_stored (Some (Fin q)) = Some (Fin (DECIMAL_5_2 q))"
  by (simp_all add: weight_stored_def)

lemma DECIMAL_5_2_examples:
  "DECIMAL_5_2 60 = 60" "DECIMAL_5_2 (10511 / 200) = 1314 / 25" "DECIMAL_5_2 (1 / 250) = 0"
  "DECIMAL_5_2 (- (10511 / 200)) = - (1314 / 25)"
  by (simp_all add: DECIMAL_5_2_def)

section \<open>Facts about the composer\<close>

lemma insert_workout_exercise_ok:
  "fails E (calls s) = None \<Longrightarrow>
   insert_workout_exercise E s wid eid ord =
     (Inr \<lparr>we_id = next_id s, we_workout_id = wid, we_exercise_id = eid, we_order = ord,
            we_created_at = clock E (calls s)\<rparr>,
      s\<lparr>tbl_workout_exercises := tbl_workout_exercises s @
            [\<lparr>we_id = next_id s, we_workout_id = wid, we_exercise_id = eid, we_order = ord,
              we_created_at = clock E (calls s)\<rparr>],
         next_id := next_id s + 1, calls := calls s + 1\<rparr>)"
  by (simp add: insert_workout_exercise_def called_def Let_def)

lemma insert_workout_exercise_fail:
  "fails E (calls s) = Some msg \<Longrightarrow>
   insert_workout_exercise E s wid eid ord = (Inl msg, s\<lparr>calls := calls s + 1\<rparr>)"
  by (simp add: insert_workout_exercise_def called_def Let_def)

lemma insert_sets_ok:
  "fails E (calls s) = None \<Longrightarrow> list_all payload_fits ps \<Longrightarrow>
   insert_sets E s ps =
     (Inr (), s\<lparr>tbl_sets := tbl_sets s @ stamp_sets (next_id s) (clock E (calls s)) ps,
                next_id := next_id s + length ps, calls := calls s + 1\<rparr>)"
  by (simp add: insert_sets_def called_def)

lemma insert_sets_fail:
  "fails E (calls s) = Some msg \<Longrightarrow> insert_sets E s ps = (Inl msg, s\<lparr>calls := calls s + 1\<rparr>)"
  by (simp add: insert_sets_def called_def)

lemma insert_sets_refused:
  "fails E (calls s) = None \<Longrightarrow> \<not> list_all payload_fits ps \<Longrightarrow>
   insert_sets E s ps = (Inl (refusal E (calls s)), s\<lparr>calls := calls s + 1\<rparr>)"
  by (simp add: insert_sets_def called_def)

lemma length_setsToInsert [simp]: "length (setsToInsert w fs) = length fs"
  by (simp add: setsToInsert_def)

lemma payload_fits_draft [simp]: "list_all payload_fits (setsToInsert w fs) = draft_fits fs"
  by (induction fs) (simp_all add: setsToInsert_def payload_fits_def draft_fits_def)

text \<open>The errors of the calls of the loop, seen from one iteration.\<close>

lemma loop_error_junction [simp]: "loop_error E c fs 0 = fails E c"
  by (simp add: loop_error_def split: option.splits)

lemma loop_error_sets:
  "loop_error E c (f # fs) (Suc 0) =
     (case fails E (c + 1) of
        Some msg \<Rightarrow> Some msg
      | None \<Rightarrow> if draft_fits (sets f) then None else Some (refusal E (c + 1)))"
  by (simp add: loop_error_def split: option.splits)

lemma loop_error_rest [simp]:
  "loop_error E c (f # fs) (Suc (Suc j)) = loop_error E (c + 2) fs j"
  by (simp add: loop_error_def add.commute add.left_commute split: option.splits)

lemma insert_sets_error:
  assumes "loop_error E c (f # fs) (Suc 0) = Some msg" and "calls s = c + 1"
  shows "insert_sets E s (setsToInsert w (sets f)) = (Inl msg, s\<lparr>calls := calls s + 1\<rparr>)"
proof (cases "fails E (calls s)")
  case (Some m)
  with assms have "m = msg" by (simp add: loop_error_sets)
  with Some show ?thesis by (simp add: insert_sets_fail)
next
  case None
  with assms have "\<not> draft_fits (sets f)" and "msg = refusal E (calls s)"
    by (auto simp: loop_error_sets split: if_splits)
  with None show ?thesis by (simp add: insert_sets_refused)
qed

lemma insert_sets_no_error:
  assumes "loop_error E c (f # fs) (Suc 0) = None" and "calls s = c + 1"
  shows "insert_sets E s (setsToInsert w (sets f)) =
           (Inr (), s\<lparr>tbl_sets := tbl_sets s @ stamp_sets (next_id s) (clock E (calls s))
                                     (setsToInsert w (sets f)),
                      next_id := next_id s + length (sets f), calls := calls s + 1\<rparr>)"
proof -
  from assms have "fails E (calls s) = None" and "draft_fits (sets f)"
    by (auto simp: loop_error_sets split: option.splits if_splits)
  then show ?thesis by (simp add: insert_sets_ok)
qed

lemma loop_error_cases:
  obtains msg where "loop_error E c fs j = Some msg" | "loop_error E c fs j = None"
  by (cases "loop_error E c fs j") auto

lemma addExercises_success:
  "addExercises E s wid i fs = (Alert ''Success'' m, s') \<Longrightarrow>
     tbl_workout_exercises s' =
       tbl_workout_exercises s @ map fst (planned E (calls s) (next_id s) wid i fs)
   \<and> tbl_sets s' = tbl_sets s @ concat (map snd (planned E (calls s) (next_id s) wid i fs))
   \<and> tbl_workouts s' = tbl_workouts s \<and> tbl_exercises s' = tbl_exercises s
   \<and> calls s' = calls s + 2 * length fs
   \<and> list_all (\<lambda>f. draft_fits (sets f)) fs"
proof (induction fs arbitrary: s i)
  case Nil
  then show ?case by simp
next
  case (Cons f fs)
  show ?case
  proof (cases "fails E (calls s)")
    case (Some msg)
    with Cons.prems show ?thesis
      by (simp add: insert_workout_exercise_fail)
  next
    case None
    note we_ok = this
    let ?s1 = "s\<lparr>tbl_workout_exercises := tbl_workout_exercises s @
            [\<lparr>we_id = next_id s, we_workout_id = wid, we_exercise_id = exercise_id f, we_order = i,
              we_created_at = clock E (calls s)\<rparr>],
         next_id := next_id s + 1, calls := calls s + 1\<rparr>"
    have c1: "calls ?s1 = calls s + 1" by simp
    show ?thesis
    proof (cases rule: loop_error_cases [of E "calls s" "f # fs" "Suc 0"])
      case (1 msg)
      from Cons.prems we_ok insert_sets_error [OF 1 c1] show ?thesis
        by (simp add: insert_workout_exercise_ok)
    next
      case 2
      then have fits: "draft_fits (sets f)"
        by (auto simp: loop_error_sets split: option.splits if_splits)
      let ?s2 = "?s1\<lparr>tbl_sets := tbl_sets ?s1 @ stamp_sets (next_id ?s1) (clock E (calls ?s1))
                     (setsToInsert (next_id s) (sets f)),
                next_id := next_id ?s1 + length (sets f),
                calls := calls ?s1 + 1\<rparr>"
      from Cons.prems we_ok insert_sets_no_error [OF 2 c1]
      have run: "addExercises E ?s2 wid (i + 1) fs = (Alert ''Success'' m, s')"
        by (simp add: insert_workout_exercise_ok)
      note ih = Cons.IH [OF run]
      from ih fits show ?thesis by simp
    qed
  qed
qed

lemma addExercises_no_fail:
  "(\<forall>j < 2 * length fs. loop_error E (calls s) fs j = None) \<Longrightarrow>
   fst (addExercises E s wid i fs) = Alert ''Success'' ''Workout created successfully!''"
proof (induction fs arbitrary: s i)
  case Nil
  then show ?case by simp
next
  case (Cons f fs)
  have "0 < 2 * length (f # fs)" and "Suc 0 < 2 * length (f # fs)" by simp_all
  with Cons.prems have "loop_error E (calls s) (f # fs) 0 = None"
    and f1: "loop_error E (calls s) (f # fs) (Suc 0) = None"
    by blast+
  then have f0: "fails E (calls s) = None" by simp
  let ?s1 = "s\<lparr>tbl_workout_exercises := tbl_workout_exercises s @
            [\<lparr>we_id = next_id s, we_workout_id = wid, we_exercise_id = exercise_id f, we_order = i,
              we_created_at = clock E (calls s)\<rparr>],
         next_id := next_id s + 1, calls := calls s + 1\<rparr>"
  have c1: "calls ?s1 = calls s + 1" by simp
  let ?s2 = "?s1\<lparr>tbl_sets := tbl_sets ?s1 @ stamp_sets (next_id ?s1) (clock E (calls ?s1))
                     (setsToInsert (next_id s) (sets f)),
                next_id := next_id ?s1 + length (sets f),
                calls := calls ?s1 + 1\<rparr>"
  have rest: "\<forall>j < 2 * length fs. loop_error E (calls ?s2) fs j = None"
  proof (intro allI impI)
    fix j assume "j < 2 * length fs"
    then have "Suc (Suc j) < 2 * length (f # fs)" by simp
    with Cons.prems have "loop_error E (calls s) (f # fs) (Suc (Suc j)) = None" by blast
    then show "loop_error E (calls ?s2) fs j = None" by simp
  qed
  have "addExercises E s wid i (f # fs) = addExercises E ?s2 wid (i + 1) fs"
    using f0 insert_sets_no_error [OF f1 c1] by (simp add: insert_workout_exercise_ok)
  with Cons.IH [OF rest] show ?case by simp
qed



lemma length_planned [simp]: "length (planned E c n wid i fs) = length fs"
  by (induction fs arbitrary: c n i) simp_all

lemma planned_order: "map (we_order \<circ> fst) (planned E c n wid i fs) = [i ..< i + length fs]"
proof (induction fs arbitrary: c n i)
  case Nil
  then show ?case by simp
next
  case (Cons f fs)
  have len: "i + length (f # fs) = Suc i + length fs" by simp
  have "i < Suc i + length fs" by simp
  then have eq: "[i ..< Suc i + length fs] = i # [Suc i ..< Suc i + length fs]"
    by (rule upt_conv_Cons)
  show ?case
    unfolding len eq using Cons.IH [of "c + 2" "n + 1 + length (sets f)" "Suc i"] by simp
qed

lemma planned_exercise: "map (we_exercise_id \<circ> fst) (planned E c n wid i fs) = map exercise_id fs"
  by (induction fs arbitrary: c n i) simp_all

lemma planned_workout: "p \<in> set (planned E c n wid i fs) \<Longrightarrow> we_workout_id (fst p) = wid"
  by (induction fs arbitrary: c n i) auto

lemma planned_id_ge: "p \<in> set (planned E c n wid i fs) \<Longrightarrow> n \<le> we_id (fst p)"
  by (induction fs arbitrary: c n i) fastforce+

lemma planned_ids_distinct: "distinct (map (we_id \<circ> fst) (planned E c n wid i fs))"
  by (induction fs arbitrary: c n i) (auto dest: planned_id_ge)

lemma stamp_sets_parent:
  "r \<in> set (stamp_sets j t (setsToInsert w fs)) \<Longrightarrow> s_workout_exercise_id r = w"
  by (induction fs arbitrary: j) (auto simp: setsToInsert_def)

lemma stamp_sets_length [simp]: "length (stamp_sets j t ps) = length ps"
  by (induction ps arbitrary: j) simp_all

lemma stamp_sets_fields:
  "map (\<lambda>r. (s_weight r, s_reps r, s_completed r)) (stamp_sets j t (setsToInsert w fs))
     = map (\<lambda>f. (weight_stored (weight f), reps f, False)) fs"
  by (induction fs arbitrary: j) (auto simp: setsToInsert_def)

lemma planned_parent:
  "p \<in> set (planned E c n wid i fs) \<Longrightarrow> r \<in> set (snd p) \<Longrightarrow> s_workout_exercise_id r = we_id (fst p)"
  by (induction fs arbitrary: c n i) (auto dest: stamp_sets_parent)

lemma planned_fields:
  "j < length fs \<Longrightarrow>
   map (\<lambda>r. (s_weight r, s_reps r, s_completed r)) (snd (planned E c n wid i fs ! j))
     = map (\<lambda>f. (weight_stored (weight f), reps f, False)) (sets (fs ! j))"
proof (induction fs arbitrary: c n i j)
  case Nil
  then show ?case by simp
next
  case (Cons f fs)
  then show ?case by (cases j) (simp_all add: stamp_sets_fields)
qed

lemma filter_concat_nth:
  "distinct ks \<Longrightarrow> length ks = length bs \<Longrightarrow>
   (\<forall>j<length bs. \<forall>r\<in>set (bs ! j). lab r = ks ! j) \<Longrightarrow> j < length bs \<Longrightarrow>
   filter (\<lambda>r. lab r = ks ! j) (concat bs) = bs ! j"
proof (induction bs arbitrary: ks j)
  case Nil
  then show ?case by simp
next
  case (Cons b bs)
  then obtain k ks' where ks: "ks = k # ks'" by (cases ks) auto
  from Cons.prems ks have d: "distinct ks'" "k \<notin> set ks'" "length ks' = length bs" by auto
  have lab_b: "\<forall>r\<in>set b. lab r = k"
    using Cons.prems(3) ks by (auto dest: spec [of _ 0])
  have lab_bs: "\<forall>j<length bs. \<forall>r\<in>set (bs ! j). lab r = ks' ! j"
  proof (intro allI impI)
    fix j assume "j < length bs"
    then have "Suc j < length (b # bs)" by simp
    with Cons.prems(3) have "\<forall>r\<in>set ((b # bs) ! Suc j). lab r = ks ! Suc j" by blast
    then show "\<forall>r\<in>set (bs ! j). lab r = ks' ! j" using ks by simp
  qed
  show ?case
  proof (cases j)
    case 0
    have "filter (\<lambda>r. lab r = k) (concat bs) = []"
    proof (rule ccontr)
      assume "filter (\<lambda>r. lab r = k) (concat bs) \<noteq> []"
      then obtain r where "r \<in> set (concat bs)" "lab r = k"
        by (metis (mono_tags, lifting) filter_False)
      then obtain b' where "b' \<in> set bs" "r \<in> set b'" by auto
      then obtain j' where "j' < length bs" "r \<in> set (bs ! j')"
        by (auto simp: in_set_conv_nth)
      with lab_bs \<open>lab r = k\<close> have "k = ks' ! j'" by auto
      with d \<open>j' < length bs\<close> show False by (metis nth_mem)
    qed
    with 0 ks lab_b show ?thesis by simp
  next
    case (Suc j')
    with Cons.prems have j': "j' < length bs" by simp
    have "ks' ! j' \<noteq> k" using d j' by (metis nth_mem)
    with lab_b have "filter (\<lambda>r. lab r = ks' ! j') b = []" by (auto simp: filter_empty_conv)
    with Cons.IH [OF d(1) d(3) lab_bs j'] Suc ks show ?thesis by simp
  qed
qed


lemma insert_workout_ok:
  "fails E (calls s) = None \<Longrightarrow>
   insert_workout E s nm descr uid =
     (Inr \<lparr>w_id = next_id s, w_user_id = uid, w_name = nm, w_description = descr,
            w_created_at = clock E (calls s), w_completed_at = None\<rparr>,
      s\<lparr>tbl_workouts := tbl_workouts s @
            [\<lparr>w_id = next_id s, w_user_id = uid, w_name = nm, w_description = descr,
              w_created_at = clock E (calls s), w_completed_at = None\<rparr>],
         next_id := next_id s + 1, calls := calls s + 1\<rparr>)"
  by (simp add: insert_workout_def called_def Let_def)

lemma insert_workout_fail:
  "fails E (calls s) = Some msg \<Longrightarrow>
   insert_workout E s nm descr uid = (Inl msg, s\<lparr>calls := calls s + 1\<rparr>)"
  by (simp add: insert_workout_def called_def)



lemma trim_name0: "trim name0 = [76, 101, 103, 115]"
  by (simp add: trim_def name0_def isWhiteSpace_def)

lemma trim_empty: "trim [] = []"
  by (simp add: trim_def)

lemma example_run:
  "createWorkout env_ok store0 7 name0 [] draft0
     = (Alert ''Success'' ''Workout created successfully!'', store1)"
  by (simp add: createWorkout_def trim_name0 trim_empty draft0_def insert_workout_def
      insert_workout_exercise_def insert_sets_def setsToInsert_def payload_fits_def
      DECIMAL_5_2_def called_def Let_def env_ok_def store0_def store1_def)


lemma call_error_workout [simp]: "call_error E c sels 0 = fails E c"
  by (simp add: call_error_def)

lemma call_error_loop [simp]: "call_error E c sels (Suc j) = loop_error E (Suc c) sels j"
  by (simp add: call_error_def)

lemma call_error_numeral [simp]:
  "call_error E c sels (numeral n) = loop_error E (Suc c) sels (pred_numeral n)"
  by (simp add: numeral_eq_Suc)

text \<open>For a draft whose values all fit their columns the error of a call is the one it
  has on its own account.\<close>

lemma call_error_fits:
  assumes "list_all (\<lambda>f. draft_fits (sets f)) sels"
  shows "call_error E c sels j = fails E (c + j)"
proof (cases j)
  case 0
  then show ?thesis by simp
next
  case (Suc j')
  have "j' div 2 < length sels \<longrightarrow> draft_fits (sets (sels ! (j' div 2)))"
    using assms by (simp add: list_all_length)
  then have "loop_error E (Suc c) sels j' = fails E (Suc c + j')"
    by (auto simp: loop_error_def split: option.splits)
  with Suc show ?thesis by simp
qed



text \<open>A run that does not end with the success alert has a first failing call.\<close>

lemma createWorkout_first_error:
  assumes valid: "trim nm \<noteq> []" "sels \<noteq> []"
    and failed: "fst (createWorkout E s user nm descr sels)
                   \<noteq> Alert ''Success'' ''Workout created successfully!''"
  shows "\<exists>k msg. k \<le> 2 * length sels \<and> (\<forall>j<k. call_error E (calls s) sels j = None)
           \<and> call_error E (calls s) sels k = Some msg"
proof -
  let ?P = "\<lambda>k. k \<le> 2 * length sels \<and> call_error E (calls s) sels k \<noteq> None"
  let ?w = "\<lparr>w_id = next_id s, w_user_id = user, w_name = trim nm,
             w_description = (if trim descr = [] then None else Some (trim descr)),
             w_created_at = clock E (calls s), w_completed_at = None\<rparr>"
  let ?s1 = "s\<lparr>tbl_workouts := tbl_workouts s @ [?w], next_id := next_id s + 1,
               calls := calls s + 1\<rparr>"
  have "\<exists>k. ?P k"
  proof (rule ccontr)
    assume "\<not> (\<exists>k. ?P k)"
    then have none: "\<forall>k \<le> 2 * length sels. call_error E (calls s) sels k = None" by blast
    then have "call_error E (calls s) sels 0 = None" by blast
    then have first: "fails E (calls s) = None" by simp
    have "\<forall>j < 2 * length sels. loop_error E (calls ?s1) sels j = None"
    proof (intro allI impI)
      fix j assume "j < 2 * length sels"
      then have "Suc j \<le> 2 * length sels" by simp
      with none have "call_error E (calls s) sels (Suc j) = None" by blast
      then show "loop_error E (calls ?s1) sels j = None" by simp
    qed
    from addExercises_no_fail [OF this, of "next_id s" 0] first valid
    have "fst (createWorkout E s user nm descr sels)
            = Alert ''Success'' ''Workout created successfully!''"
      by (simp add: createWorkout_def insert_workout_ok)
    with failed show False by simp
  qed
  then obtain k where k: "?P k" and least: "\<forall>j<k. \<not> ?P j"
    unfolding exists_least_iff [of ?P] by blast
  from k obtain msg where "call_error E (calls s) sels k = Some msg" by auto
  moreover have "\<forall>j<k. call_error E (calls s) sels j = None"
  proof (intro allI impI)
    fix j assume "j < k"
    with least k have "\<not> ?P j" and "j \<le> 2 * length sels" by simp_all
    then show "call_error E (calls s) sels j = None" by simp
  qed
  ultimately show ?thesis using k by blast
qed

section \<open>Validation precedes every store call\<close>

text \<open>
  Claim C8. When the trimmed name is empty or no exercise is selected, \<open>createWorkout\<close>
  ends with the alert of the check that failed, and the store it returns is the store it
  was given: no row was written and no call was issued (the call counter is part of the
  store).
\<close>

theorem createWorkout_validation:
  assumes "trim workoutName = [] \<or> selectedExercises = []"
  shows "createWorkout E s user workoutName workoutDescription selectedExercises
           = (Alert ''Error'' (if trim workoutName = [] then ''Please enter a workout name''
                               else ''Please add at least one exercise''), s)"
  using assms by (auto simp: createWorkout_def)

theorem createWorkout_validation_witness:
  "createWorkout env_ok store1 7 [32, 9] [] draft0
     = (Alert ''Error'' ''Please enter a workout name'', store1)
   \<and> createWorkout env_ok store1 7 name0 [] []
     = (Alert ''Error'' ''Please add at least one exercise'', store1)"
proof -
  have blank: "trim [32, 9] = []"
    by (simp add: trim_def isWhiteSpace_def)
  have named: "trim name0 \<noteq> []"
    by (simp add: trim_name0)
  from blank have h1: "trim [32, 9] = [] \<or> draft0 = []" by simp
  have h2: "trim name0 = [] \<or> ([] :: CreateExerciseForm list) = []" by simp
  show ?thesis
    using createWorkout_validation [OF h1, of env_ok store1 7 "[]"]
          createWorkout_validation [OF h2, of env_ok store1 7 "[]"] blank named
    by simp
qed

section \<open>What a successful composition writes\<close>

text \<open>A weight with at most two decimals and fewer than four digits before them is kept as
  it is given; so is the missing weight.\<close>

lemma DECIMAL_5_2_kept: "DECIMAL_5_2 (of_int n / 100) = of_int n / 100"
proof (cases "0 \<le> n")
  case True
  have "\<lfloor>(of_int n :: rat) + 1 / 2\<rfloor> = n" by (rule floor_unique) simp_all
  with True show ?thesis by (simp add: DECIMAL_5_2_def)
next
  case False
  have "\<lfloor>(of_int (- n) :: rat) + 1 / 2\<rfloor> = - n" by (rule floor_unique) simp_all
  with False show ?thesis by (simp add: DECIMAL_5_2_def)
qed

lemma two_decimals_kept:
  "\<bar>n\<bar> < 100000 \<Longrightarrow>
   weight_fits (Some (Fin (of_int n / 100)))
   \<and> weight_stored (Some (Fin (of_int n / 100))) = Some (Fin (of_int n / 100))"
proof -
  assume "\<bar>n\<bar> < 100000"
  then have "\<bar>(of_int n :: rat)\<bar> < 100000"
    by (metis of_int_abs of_int_less_iff of_int_numeral)
  then show ?thesis by (simp add: DECIMAL_5_2_kept)
qed

text \<open>
  Claim C2, as the code and the schema have it. When \<open>createWorkout\<close> ends with the success
  alert, the store has exactly one more workout row, carrying the trimmed name, the
  trimmed description or NULL, the user and no completion time; exactly one more
  \<^verbatim>\<open>workout_exercises\<close> row per selected exercise, in the order of the draft, with \<open>order\<close>
  running from 0 and all pointing to the new workout; and, for the \<open>i\<close>-th of them,
  exactly the sets of the \<open>i\<close>-th selection as new rows under it. The new rows that
  reference it are a batch whose reps are those of the draft, whose \<open>completed\<close> is false
  and whose weight is the weight of the draft as the column \<^verbatim>\<open>DECIMAL(5,2)\<close> keeps it:
  rounded to two decimals, and NULL when the draft has no weight or one that is not
  finite. The values of a draft that was written fit their columns.
\<close>

theorem createWorkout_success:
  assumes run: "createWorkout E s user nm descr sels = (Alert ''Success'' m, s')"
  shows "\<exists>w wes batches.
      tbl_workouts s' = tbl_workouts s @ [w]
    \<and> w_name w = trim nm
    \<and> w_description w = (if trim descr = [] then None else Some (trim descr))
    \<and> w_user_id w = user \<and> w_completed_at w = None
    \<and> tbl_workout_exercises s' = tbl_workout_exercises s @ wes
    \<and> length wes = length sels
    \<and> map we_order wes = [0 ..< length sels]
    \<and> map we_exercise_id wes = map exercise_id sels
    \<and> (\<forall>x \<in> set wes. we_workout_id x = w_id w)
    \<and> distinct (map we_id wes)
    \<and> tbl_sets s' = tbl_sets s @ concat batches
    \<and> length batches = length sels
    \<and> (\<forall>i < length sels.
          filter (\<lambda>r. s_workout_exercise_id r = we_id (wes ! i)) (concat batches) = batches ! i
        \<and> map (\<lambda>r. (s_weight r, s_reps r, s_completed r)) (batches ! i)
            = map (\<lambda>f. (weight_stored (weight f), reps f, False)) (sets (sels ! i))
        \<and> draft_fits (sets (sels ! i)))"
proof -
  from run have name_ok: "trim nm \<noteq> []" and sels_ok: "sels \<noteq> []"
    by (auto simp: createWorkout_def split: if_splits)
  have call_ok: "fails E (calls s) = None"
  proof (cases "fails E (calls s)")
    case (Some msg)
    with run name_ok sels_ok show ?thesis
      by (simp add: createWorkout_def insert_workout_fail)
  qed simp
  let ?d = "if trim descr = [] then None else Some (trim descr)"
  let ?w = "\<lparr>w_id = next_id s, w_user_id = user, w_name = trim nm, w_description = ?d,
             w_created_at = clock E (calls s), w_completed_at = None\<rparr>"
  let ?s1 = "s\<lparr>tbl_workouts := tbl_workouts s @ [?w], next_id := next_id s + 1,
               calls := calls s + 1\<rparr>"
  let ?P = "planned E (calls ?s1) (next_id ?s1) (next_id s) 0 sels"
  from run name_ok sels_ok call_ok
  have loop: "addExercises E ?s1 (next_id s) 0 sels = (Alert ''Success'' m, s')"
    by (simp add: createWorkout_def insert_workout_ok)
  note tables = addExercises_success [OF loop]
  have distinct_ids: "distinct (map we_id (map fst ?P))"
    using planned_ids_distinct [of E "calls ?s1" "next_id ?s1" "next_id s" 0 sels] by simp
  have parents: "\<forall>j<length (map snd ?P). \<forall>r\<in>set (map snd ?P ! j).
                   s_workout_exercise_id r = map we_id (map fst ?P) ! j"
    by (auto intro!: planned_parent [OF nth_mem])
  have per_exercise: "\<forall>i < length sels.
      filter (\<lambda>r. s_workout_exercise_id r = we_id (map fst ?P ! i)) (concat (map snd ?P))
        = map snd ?P ! i
    \<and> map (\<lambda>r. (s_weight r, s_reps r, s_completed r)) (map snd ?P ! i)
        = map (\<lambda>f. (weight_stored (weight f), reps f, False)) (sets (sels ! i))
    \<and> draft_fits (sets (sels ! i))"
  proof (intro allI impI conjI)
    fix i assume i: "i < length sels"
    then have "filter (\<lambda>r. s_workout_exercise_id r = map we_id (map fst ?P) ! i) (concat (map snd ?P))
                 = map snd ?P ! i"
      using filter_concat_nth [OF distinct_ids _ parents, of i] by simp
    with i show "filter (\<lambda>r. s_workout_exercise_id r = we_id (map fst ?P ! i)) (concat (map snd ?P))
                   = map snd ?P ! i"
      by simp
    from i show "map (\<lambda>r. (s_weight r, s_reps r, s_completed r)) (map snd ?P ! i)
        = map (\<lambda>f. (weight_stored (weight f), reps f, False)) (sets (sels ! i))"
      by (simp add: planned_fields)
    from tables i show "draft_fits (sets (sels ! i))"
      by (simp add: list_all_length)
  qed
  have "tbl_workouts s' = tbl_workouts s @ [?w]" using tables by simp
  moreover have "tbl_workout_exercises s' = tbl_workout_exercises s @ map fst ?P"
    using tables by simp
  moreover have "map we_order (map fst ?P) = [0 ..< length sels]"
    using planned_order [of E "calls ?s1" "next_id ?s1" "next_id s" 0 sels] by simp
  moreover have "map we_exercise_id (map fst ?P) = map exercise_id sels"
    using planned_exercise [of E "calls ?s1" "next_id ?s1" "next_id s" 0 sels] by simp
  moreover have "\<forall>x \<in> set (map fst ?P). we_workout_id x = w_id ?w"
    by (auto dest: planned_workout)
  moreover have "tbl_sets s' = tbl_sets s @ concat (map snd ?P)"
    using tables by simp
  ultimately show ?thesis
    using distinct_ids per_exercise
    by (intro exI [of _ ?w] exI [of _ "map fst ?P"] exI [of _ "map snd ?P"]) simp
qed

theorem createWorkout_success_witness:
  "createWorkout env_ok store0 7 name0 [] draft0
     = (Alert ''Success'' ''Workout created successfully!'', store1)
   \<and> map we_order (tbl_workout_exercises store1) = [0, 1]
   \<and> map we_exercise_id (tbl_workout_exercises store1) = [1, 2]
   \<and> length (tbl_sets store1) = 3
   \<and> fst (createWorkout env_ok store0 7 name0 [] draft_decimals)
       = Alert ''Success'' ''Workout created successfully!''
   \<and> map (\<lambda>r. (s_weight r, s_reps r, s_completed r))
         (tbl_sets (snd (createWorkout env_ok store0 7 name0 [] draft_decimals)))
       = [(Some (Fin (5256 / 100)), Fin 8, False)]"
proof -
  note run = example_run
  from createWorkout_success [OF run]
  obtain wes where wes: "tbl_workout_exercises store1 = tbl_workout_exercises store0 @ wes"
    and ord: "map we_order wes = [0 ..< length draft0]"
    and exs: "map we_exercise_id wes = map exercise_id draft0"
    by blast
  from wes have "wes = tbl_workout_exercises store1" by (simp add: store0_def)
  with ord exs have first: "map we_order (tbl_workout_exercises store1) = [0, 1]"
    "map we_exercise_id (tbl_workout_exercises store1) = [1, 2]"
    by (simp_all add: draft0_def upt_rec)
  have count: "length (tbl_sets store1) = 3" by (simp add: store1_def)
  let ?q = "createWorkout env_ok store0 7 name0 [] draft_decimals"
  have ok: "fst ?q = Alert ''Success'' ''Workout created successfully!''"
    by (simp add: createWorkout_def trim_name0 trim_empty draft_decimals_def insert_workout_def
        insert_workout_exercise_def insert_sets_def setsToInsert_def payload_fits_def
        DECIMAL_5_2_def called_def Let_def env_ok_def store0_def)
  then have run2: "?q = (Alert ''Success'' ''Workout created successfully!'', snd ?q)"
    by (simp add: prod_eq_iff)
  from createWorkout_success [OF run2]
  obtain batches where rows: "tbl_sets (snd ?q) = tbl_sets store0 @ concat batches"
    and len: "length batches = length draft_decimals"
    and each: "\<forall>i < length draft_decimals.
          map (\<lambda>r. (s_weight r, s_reps r, s_completed r)) (batches ! i)
            = map (\<lambda>f. (weight_stored (weight f), reps f, False)) (sets (draft_decimals ! i))"
    by blast
  from len obtain b where b: "batches = [b]"
    by (cases batches) (simp_all add: draft_decimals_def)
  from each b have "map (\<lambda>r. (s_weight r, s_reps r, s_completed r)) b
                      = [(Some (Fin (5256 / 100)), Fin 8, False)]"
    by (simp add: draft_decimals_def DECIMAL_5_2_def)
  with rows b have second: "map (\<lambda>r. (s_weight r, s_reps r, s_completed r)) (tbl_sets (snd ?q))
                      = [(Some (Fin (5256 / 100)), Fin 8, False)]"
    by (simp add: store0_def)
  from run first count ok second show ?thesis by - (intro conjI; assumption)
qed

text \<open>
  Claim C2 as stated fails for the weight: a draft weight of 52.555 is stored as 52.56.
\<close>

theorem weight_rounded_on_insert:
  "fst (createWorkout env_ok store0 7 name0 [] draft_decimals)
     = Alert ''Success'' ''Workout created successfully!''
   \<and> map weight (sets (draft_decimals ! 0)) = [Some (Fin (52555 / 1000))]
   \<and> map s_weight (tbl_sets (snd (createWorkout env_ok store0 7 name0 [] draft_decimals)))
       = [Some (Fin (5256 / 100))]
   \<and> map s_weight (tbl_sets (snd (createWorkout env_ok store0 7 name0 [] draft_decimals)))
       \<noteq> map weight (sets (draft_decimals ! 0))"
  by (simp add: createWorkout_def trim_name0 trim_empty draft_decimals_def insert_workout_def
      insert_workout_exercise_def insert_sets_def setsToInsert_def payload_fits_def
      DECIMAL_5_2_def called_def Let_def env_ok_def store0_def)

section \<open>A failing call ends the composition and nothing is taken back\<close>



section \<open>Facts about reading and editing\<close>

lemma called_tables [simp]:
  "tbl_sets (called s) = tbl_sets s" "tbl_workouts (called s) = tbl_workouts s"
  "tbl_workout_exercises (called s) = tbl_workout_exercises s"
  "tbl_exercises (called s) = tbl_exercises s"
  by (simp_all add: called_def)

lemma update_set_ok:
  "fails E (calls s) = None \<Longrightarrow>
   update_fits upd \<or> \<not> list_ex (\<lambda>r. s_id r = setId) (tbl_sets s) \<Longrightarrow>
   update_set E s setId upd =
     (Inr (), s\<lparr>tbl_sets := map (\<lambda>r. if s_id r = setId then write_set upd r else r) (tbl_sets s),
                calls := calls s + 1\<rparr>)"
  by (auto simp: update_set_def called_def)

lemma update_set_fail:
  "fails E (calls s) = Some msg \<Longrightarrow>
   update_set E s setId upd = (Inl msg, s\<lparr>calls := calls s + 1\<rparr>)"
  by (simp add: update_set_def called_def)

lemma update_set_refused:
  "fails E (calls s) = None \<Longrightarrow> list_ex (\<lambda>r. s_id r = setId) (tbl_sets s) \<Longrightarrow>
   \<not> update_fits upd \<Longrightarrow>
   update_set E s setId upd = (Inl (refusal E (calls s)), s\<lparr>calls := calls s + 1\<rparr>)"
  by (simp add: update_set_def called_def)

lemma update_set_cases:
  obtains (failed) msg where "update_set E s setId upd = (Inl msg, s\<lparr>calls := calls s + 1\<rparr>)"
  | (written) "update_fits upd \<or> \<not> list_ex (\<lambda>r. s_id r = setId) (tbl_sets s)"
      "update_set E s setId upd =
         (Inr (), s\<lparr>tbl_sets := map (\<lambda>r. if s_id r = setId then write_set upd r else r) (tbl_sets s),
                    calls := calls s + 1\<rparr>)"
proof (cases "fails E (calls s)")
  case (Some msg)
  then show ?thesis by (rule failed [OF update_set_fail])
next
  case None
  show ?thesis
  proof (cases "update_fits upd \<or> \<not> list_ex (\<lambda>r. s_id r = setId) (tbl_sets s)")
    case True
    from True update_set_ok [OF None True] show ?thesis by (rule written)
  next
    case False
    then have "list_ex (\<lambda>r. s_id r = setId) (tbl_sets s)" and "\<not> update_fits upd"
      by simp_all
    from update_set_refused [OF None this] show ?thesis by (rule failed)
  qed
qed

lemma update_set_workouts: "tbl_workouts (snd (update_set E s setId upd)) = tbl_workouts s"
  by (cases rule: update_set_cases [of E s setId upd]) simp_all

lemma update_local_sets:
  assumes "workout (update_local scr setId change) = Some w"
    and "ex \<in> set (exercises w)" and "sv \<in> set (ex_sets ex)" and "sv_id sv = setId"
    and "\<And>x. sv_id (change x) = sv_id x"
  shows "\<exists>x. sv = change x"
proof (cases "workout scr")
  case None
  with assms(1) show ?thesis by (simp add: update_local_def)
next
  case (Some w0)
  with assms(1) have w: "w = w0\<lparr>exercises :=
                 map (\<lambda>exercise. exercise\<lparr>ex_sets :=
                        map (\<lambda>set. if sv_id set = setId then change set else set)
                            (ex_sets exercise)\<rparr>)
                     (exercises w0)\<rparr>"
    by (simp add: update_local_def)
  with assms(2) obtain ex0 where "ex0 \<in> set (exercises w0)"
    and "ex = ex0\<lparr>ex_sets := map (\<lambda>set. if sv_id set = setId then change set else set)
                                  (ex_sets ex0)\<rparr>"
    by auto
  with assms(3) obtain x where "x \<in> set (ex_sets ex0)"
    and sv: "sv = (if sv_id x = setId then change x else x)"
    by auto
  with assms(4,5) show ?thesis by (cases "sv_id x = setId") auto
qed

lemma transform_sets:
  "transform js = Some exs \<Longrightarrow> ex \<in> set exs \<Longrightarrow> \<exists>j \<in> set js. set (ex_sets ex) = set (j_sets j)"
proof (induction js arbitrary: exs)
  case Nil
  then show ?case by simp
next
  case (Cons j js)
  then show ?case
    by (auto split: option.splits)
qed

lemma fetchPrevious_tables:
  "fetchPrevious E s wd exs m = (m', s') \<Longrightarrow>
   tbl_sets s' = tbl_sets s \<and> tbl_workouts s' = tbl_workouts s
   \<and> tbl_workout_exercises s' = tbl_workout_exercises s \<and> tbl_exercises s' = tbl_exercises s"
proof (induction exs arbitrary: s m)
  case Nil
  then show ?case by simp
next
  case (Cons ex exs)
  obtain answer s1 where sel: "select_previous E s (ex_id ex) (w_created_at wd) (w_user_id wd) = (answer, s1)"
    by (cases "select_previous E s (ex_id ex) (w_created_at wd) (w_user_id wd)")
  then have same: "tbl_sets s1 = tbl_sets s \<and> tbl_workouts s1 = tbl_workouts s
     \<and> tbl_workout_exercises s1 = tbl_workout_exercises s \<and> tbl_exercises s1 = tbl_exercises s"
    by (auto simp: select_previous_def called_def split: option.splits)
  from Cons.prems sel have "fetchPrevious E s1 wd exs (m(ex_id ex \<mapsto> previousSets answer)) = (m', s')"
    by simp
  from Cons.IH [OF this] same show ?case by simp
qed

lemma select_workout_store: "select_workout E s wid = (r, s1) \<Longrightarrow> s1 = called s"
  by (auto simp: select_workout_def split: option.splits list.splits)

lemma select_workout_exercises_store:
  "select_workout_exercises E s wid = (r, s1) \<Longrightarrow> s1 = called s"
  by (auto simp: select_workout_exercises_def split: option.splits)

lemma select_workout_exercises_rows:
  "select_workout_exercises E s wid = (Inr js, s1) \<Longrightarrow>
   js = map (join_exercise s)
          (sort_key we_order (filter (\<lambda>we. we_workout_id we = wid) (tbl_workout_exercises s)))"
  by (auto simp: select_workout_exercises_def split: option.splits)

lemma fetchWorkoutDetails_success:
  assumes run: "fetchWorkoutDetails E s scr = (None, scr', s')"
  shows "\<exists>workoutData js exs prevMap.
           select_workout E s (workoutId scr) = (Inr workoutData, called s)
         \<and> select_workout_exercises E (called s) (workoutId scr) = (Inr js, called (called s))
         \<and> transform js = Some exs
         \<and> fetchPrevious E (called (called s)) workoutData exs Map.empty = (prevMap, s')
         \<and> scr' = scr\<lparr>workout := Some \<lparr>wv_row = workoutData, exercises = exs\<rparr>,
                       previousByExerciseId := prevMap, loading := False\<rparr>"
proof -
  obtain r1 s1 where 1: "select_workout E s (workoutId scr) = (r1, s1)"
    by (cases "select_workout E s (workoutId scr)")
  then have s1: "s1 = called s" by (rule select_workout_store)
  obtain r2 s2 where 2: "select_workout_exercises E s1 (workoutId scr) = (r2, s2)"
    by (cases "select_workout_exercises E s1 (workoutId scr)")
  then have s2: "s2 = called s1" by (rule select_workout_exercises_store)
  from run 1 obtain workoutData where r1: "r1 = Inr workoutData"
    by (cases r1) (simp_all add: fetchWorkoutDetails_def)
  from run 1 2 r1 obtain js where r2: "r2 = Inr js"
    by (cases r2) (simp_all add: fetchWorkoutDetails_def)
  from run 1 2 r1 r2 obtain exs where tr: "transform js = Some exs"
    by (cases "transform js") (simp_all add: fetchWorkoutDetails_def)
  obtain prevMap s3 where 3: "fetchPrevious E s2 workoutData exs Map.empty = (prevMap, s3)"
    by (cases "fetchPrevious E s2 workoutData exs Map.empty")
  from run 1 2 r1 r2 tr 3
  have "s' = s3" and "scr' = scr\<lparr>workout := Some \<lparr>wv_row = workoutData, exercises = exs\<rparr>,
                       previousByExerciseId := prevMap, loading := False\<rparr>"
    by (simp_all add: fetchWorkoutDetails_def)
  with 1 2 3 r1 r2 tr s1 s2 show ?thesis by auto
qed

lemma fetchWorkoutDetails_sets:
  assumes "fetchWorkoutDetails E s scr = (None, scr', s')"
    and "workout scr' = Some w" and "ex \<in> set (exercises w)" and "sv \<in> set (ex_sets ex)"
  shows "\<exists>r \<in> set (tbl_sets s). sv = set_view r"
proof -
  from fetchWorkoutDetails_success [OF assms(1)] assms(2)
  obtain js s1 where rows: "select_workout_exercises E (called s) (workoutId scr) = (Inr js, s1)"
    and js: "transform js = Some (exercises w)"
    by auto
  from transform_sets [OF js assms(3)] obtain j where "j \<in> set js" "set (ex_sets ex) = set (j_sets j)"
    by blast
  with select_workout_exercises_rows [OF rows] assms(4)
  obtain we where "sv \<in> set (j_sets (join_exercise (called s) we))"
    by auto
  then show ?thesis
    by (auto simp: join_exercise_def sets_of_def)
qed

lemma fetchWorkoutDetails_workouts:
  assumes "fetchWorkoutDetails E s scr = (a, scr', s')"
  shows "tbl_workouts s' = tbl_workouts s"
proof -
  obtain r1 s1 where 1: "select_workout E s (workoutId scr) = (r1, s1)"
    by (cases "select_workout E s (workoutId scr)")
  then have s1: "s1 = called s" by (rule select_workout_store)
  obtain r2 s2 where 2: "select_workout_exercises E s1 (workoutId scr) = (r2, s2)"
    by (cases "select_workout_exercises E s1 (workoutId scr)")
  then have s2: "s2 = called s1" by (rule select_workout_exercises_store)
  show ?thesis
  proof (cases r1)
    case (Inl e)
    with assms 1 have "s' = s1" by (simp add: fetchWorkoutDetails_def)
    with s1 show ?thesis by simp
  next
    case (Inr workoutData)
    note r1 = this
    show ?thesis
    proof (cases r2)
      case (Inl e)
      with assms 1 2 r1 have "s' = s2" by (simp add: fetchWorkoutDetails_def)
      with s1 s2 show ?thesis by simp
    next
      case (Inr js)
      note r2 = this
      show ?thesis
      proof (cases "transform js")
        case None
        with assms 1 2 r1 r2 have "s' = s2" by (simp add: fetchWorkoutDetails_def)
        with s1 s2 show ?thesis by simp
      next
        case (Some exs)
        obtain prevMap s3 where 3: "fetchPrevious E s2 workoutData exs Map.empty = (prevMap, s3)"
          by (cases "fetchPrevious E s2 workoutData exs Map.empty")
        with assms 1 2 r1 r2 Some have "s' = s3" by (simp add: fetchWorkoutDetails_def)
        with fetchPrevious_tables [OF 3] s1 s2 show ?thesis by simp
      qed
    qed
  qed
qed

lemma fetch_example:
  "fetchWorkoutDetails env_ok store1 (mounted 10) = (None, detail1, store1\<lparr>calls := 9\<rparr>)"
  by (simp add: fetchWorkoutDetails_def select_workout_def select_workout_exercises_def
      select_previous_def previous_rows_def inner_workouts_def previousSets_def
      join_exercise_def sets_of_def set_view_def called_def mounted_def detail1_def
      env_ok_def store1_def store0_def)


text \<open>What a read returns: it succeeds when its first two calls are served, the workout
  is there once and every junction row of the workout has its exercise; and when it
  succeeds the screen holds the workout row asked for and every stored set of the
  workout.\<close>

lemma transform_covers:
  "transform js = Some exs \<Longrightarrow> j \<in> set js \<Longrightarrow>
   \<exists>ex \<in> set exs. workout_exercise_id ex = j_id j \<and> set (ex_sets ex) = set (j_sets j)"
proof (induction js arbitrary: exs)
  case Nil
  then show ?case by simp
next
  case (Cons j0 js)
  from Cons.prems(1) obtain e vs where e: "j_exercises j0 = Some e" and vs: "transform js = Some vs"
    and exs: "exs = \<lparr>workout_exercise_id = j_id j0, ex_id = e_id e, ex_name = e_name e,
                      ex_description = e_description e,
                      ex_sets = sort_key sv_created_at (j_sets j0)\<rparr> # vs"
    by (auto split: option.splits)
  show ?case
  proof (cases "j = j0")
    case True
    with exs show ?thesis by simp
  next
    case False
    with Cons.prems(2) have "j \<in> set js" by simp
    from Cons.IH [OF vs this] exs show ?thesis by auto
  qed
qed

lemma transform_total:
  "\<forall>j \<in> set js. j_exercises j \<noteq> None \<Longrightarrow> \<exists>exs. transform js = Some exs"
  by (induction js) auto

lemma select_workout_ok:
  "fails E (calls s) = None \<Longrightarrow> filter (\<lambda>w. w_id w = wid) (tbl_workouts s) = [w] \<Longrightarrow>
   select_workout E s wid = (Inr w, called s)"
  by (simp add: select_workout_def)

lemma select_workout_row:
  assumes "select_workout E s wid = (Inr w, s1)"
  shows "w_id w = wid \<and> w \<in> set (tbl_workouts s)"
proof -
  from assms have "filter (\<lambda>w. w_id w = wid) (tbl_workouts s) = [w]"
    by (auto simp: select_workout_def split: option.splits list.splits)
  then have "w \<in> set (filter (\<lambda>w. w_id w = wid) (tbl_workouts s))" by simp
  then show ?thesis by simp
qed

lemma select_workout_exercises_ok:
  "fails E (calls s) = None \<Longrightarrow>
   select_workout_exercises E s wid
     = (Inr (map (join_exercise s)
               (sort_key we_order (filter (\<lambda>we. we_workout_id we = wid) (tbl_workout_exercises s)))),
        called s)"
  by (simp add: select_workout_exercises_def)

lemma fetchPrevious_calls: "\<exists>m' s'. fetchPrevious E s wd exs m = (m', s')"
  by (cases "fetchPrevious E s wd exs m") simp

lemma fetchWorkoutDetails_reads:
  assumes c0: "fails E (calls s) = None" and c1: "fails E (calls s + 1) = None"
    and single: "filter (\<lambda>w. w_id w = wid) (tbl_workouts s) = [w]"
    and joined: "\<forall>x \<in> set (tbl_workout_exercises s).
                   we_workout_id x = wid \<longrightarrow> (\<exists>e \<in> set (tbl_exercises s). e_id e = we_exercise_id x)"
  shows "\<exists>scr' s'. fetchWorkoutDetails E s (mounted wid) = (None, scr', s')"
proof -
  let ?js = "map (join_exercise (called s))
               (sort_key we_order (filter (\<lambda>we. we_workout_id we = wid) (tbl_workout_exercises s)))"
  have 1: "select_workout E s (workoutId (mounted wid)) = (Inr w, called s)"
    using c0 single by (simp add: select_workout_ok mounted_def)
  have 2: "select_workout_exercises E (called s) (workoutId (mounted wid))
             = (Inr ?js, called (called s))"
    using c1 select_workout_exercises_ok [of E "called s" wid] by (simp add: called_def mounted_def)
  have "\<forall>j \<in> set ?js. j_exercises j \<noteq> None"
  proof
    fix j assume "j \<in> set ?js"
    then obtain x where x: "x \<in> set (tbl_workout_exercises s)" "we_workout_id x = wid"
      and j: "j = join_exercise (called s) x"
      by auto
    from joined x obtain e where "e \<in> set (tbl_exercises s)" "e_id e = we_exercise_id x"
      by blast
    then have "find (\<lambda>e. e_id e = we_exercise_id x) (tbl_exercises s) \<noteq> None"
      by (auto simp: find_None_iff)
    with j show "j_exercises j \<noteq> None" by (simp add: join_exercise_def)
  qed
  from transform_total [OF this] obtain exs where 3: "transform ?js = Some exs" ..
  obtain m' s' where 4: "fetchPrevious E (called (called s)) w exs Map.empty = (m', s')"
    using fetchPrevious_calls by blast
  from 1 2 3 4 show ?thesis
    by (simp add: fetchWorkoutDetails_def)
qed

lemma fetchWorkoutDetails_tables:
  assumes "fetchWorkoutDetails E s scr = (None, scr', s')"
  shows "tbl_sets s' = tbl_sets s \<and> tbl_workout_exercises s' = tbl_workout_exercises s
       \<and> tbl_workouts s' = tbl_workouts s \<and> tbl_exercises s' = tbl_exercises s"
proof -
  from fetchWorkoutDetails_success [OF assms]
  obtain workoutData exs prevMap
    where "fetchPrevious E (called (called s)) workoutData exs Map.empty = (prevMap, s')"
    by blast
  from fetchPrevious_tables [OF this] show ?thesis by simp
qed

lemma fetchWorkoutDetails_row:
  assumes "fetchWorkoutDetails E s scr = (None, scr', s')"
  shows "workoutId scr' = workoutId scr
       \<and> (\<exists>v. workout scr' = Some v \<and> w_id (wv_row v) = workoutId scr
              \<and> wv_row v \<in> set (tbl_workouts s))"
proof -
  from fetchWorkoutDetails_success [OF assms]
  obtain workoutData exs prevMap
    where sel: "select_workout E s (workoutId scr) = (Inr workoutData, called s)"
      and scr': "scr' = scr\<lparr>workout := Some \<lparr>wv_row = workoutData, exercises = exs\<rparr>,
                          previousByExerciseId := prevMap, loading := False\<rparr>"
    by blast
  from select_workout_row [OF sel] scr' show ?thesis by simp
qed

lemma fetchWorkoutDetails_covers:
  assumes run: "fetchWorkoutDetails E s scr = (None, scr', s')"
    and we: "we \<in> set (tbl_workout_exercises s)" "we_workout_id we = workoutId scr"
    and r: "r \<in> set (tbl_sets s)" "s_workout_exercise_id r = we_id we"
  shows "\<exists>v ex. workout scr' = Some v \<and> ex \<in> set (exercises v) \<and> set_view r \<in> set (ex_sets ex)"
proof -
  from fetchWorkoutDetails_success [OF run]
  obtain workoutData js exs prevMap
    where rows: "select_workout_exercises E (called s) (workoutId scr) = (Inr js, called (called s))"
      and tr: "transform js = Some exs"
      and scr': "scr' = scr\<lparr>workout := Some \<lparr>wv_row = workoutData, exercises = exs\<rparr>,
                          previousByExerciseId := prevMap, loading := False\<rparr>"
    by blast
  from select_workout_exercises_rows [OF rows] we
  have "join_exercise (called s) we \<in> set js" by simp
  from transform_covers [OF tr this]
  obtain ex where ex: "ex \<in> set exs"
    and sets: "set (ex_sets ex) = set (j_sets (join_exercise (called s) we))"
    by blast
  from r have "set_view r \<in> set (j_sets (join_exercise (called s) we))"
    by (simp add: join_exercise_def sets_of_def)
  with sets have "set_view r \<in> set (ex_sets ex)" by simp
  with ex scr' show ?thesis by auto
qed

lemma fetchWorkoutDetails_loaded:
  assumes "fetchWorkoutDetails E s (mounted wid) = (a, scr', s')" and "workout scr' = Some v"
  shows "a = None"
proof (rule ccontr)
  assume "a \<noteq> None"
  then obtain al where a: "a = Some al" by auto
  have "workout scr' = None"
    using assms(1) unfolding a
    by (auto simp: fetchWorkoutDetails_def mounted_def split: prod.splits sum.splits option.splits)
  with assms(2) show False by simp
qed

section \<open>The history filters\<close>

lemma fetchWorkoutHistory_ok:
  "fails E (calls s) = None \<Longrightarrow>
   workouts (fst (fetchWorkoutHistory E s user scr))
     = map (\<lambda>w. transformedWorkout
                    (w, map (nest_exercise s)
                          (filter (\<lambda>we. we_workout_id we = w_id w) (tbl_workout_exercises s))))
           (history_rows s user (filter_choice scr))"
  by (simp add: fetchWorkoutHistory_def select_history_def comp_def)

lemma history_rows_filter:
  "history_rows s user flt = filter (passes flt) (history_rows s user F_all)"
  by (simp add: history_rows_def passes_def)

lemma passes_simps:
  "passes F_all = (\<lambda>w. True)"
  "passes F_completed = (\<lambda>w. w_completed_at w \<noteq> None)"
  "passes F_incomplete = (\<lambda>w. w_completed_at w = None)"
  by (simp_all add: fun_eq_iff passes_def)

lemma h_row_transformedWorkout [simp]: "h_row (transformedWorkout (w, x)) = w"
  by (simp add: transformedWorkout_def)

text \<open>
  Claim C6. For one state of the store and a query that is answered, the list shown for
  the filter \<^verbatim>\<open>'completed'\<close> is the list shown for \<^verbatim>\<open>'all'\<close> cut down to the workouts
  with a completion time, the list for \<^verbatim>\<open>'incomplete'\<close> is it cut down to those without,
  the two have no workout in common, together they are the whole list (as sets and in
  number), and the list for \<^verbatim>\<open>'all'\<close> holds exactly the user's workouts.
\<close>

theorem history_filters_partition:
  fixes E s user scr
  assumes ok: "fails E (calls s) = None"
  defines "shown \<equiv> \<lambda>flt. workouts (fst (fetchWorkoutHistory E s user (scr\<lparr>filter_choice := flt\<rparr>)))"
  shows "shown F_completed = filter (\<lambda>h. w_completed_at (h_row h) \<noteq> None) (shown F_all)
       \<and> shown F_incomplete = filter (\<lambda>h. w_completed_at (h_row h) = None) (shown F_all)
       \<and> set (shown F_completed) \<union> set (shown F_incomplete) = set (shown F_all)
       \<and> set (shown F_completed) \<inter> set (shown F_incomplete) = {}
       \<and> length (shown F_completed) + length (shown F_incomplete) = length (shown F_all)
       \<and> set (map h_row (shown F_all)) = {w. w \<in> set (tbl_workouts s) \<and> w_user_id w = user}"
proof -
  let ?item = "\<lambda>w. transformedWorkout
                    (w, map (nest_exercise s)
                          (filter (\<lambda>we. we_workout_id we = w_id w) (tbl_workout_exercises s)))"
  have shown: "shown flt = map ?item (filter (passes flt) (history_rows s user F_all))" for flt
    unfolding shown_def using ok history_rows_filter [of s user flt]
    by (simp add: fetchWorkoutHistory_ok)
  have all: "shown F_all = map ?item (history_rows s user F_all)"
    by (simp add: shown passes_simps)
  have c: "shown F_completed = filter (\<lambda>h. w_completed_at (h_row h) \<noteq> None) (shown F_all)"
    unfolding shown [of F_completed] all passes_simps by (simp add: filter_map comp_def)
  have i: "shown F_incomplete = filter (\<lambda>h. w_completed_at (h_row h) = None) (shown F_all)"
    unfolding shown [of F_incomplete] all passes_simps by (simp add: filter_map comp_def)
  have u: "set (shown F_completed) \<union> set (shown F_incomplete) = set (shown F_all)"
    unfolding c i by auto
  have d: "set (shown F_completed) \<inter> set (shown F_incomplete) = {}"
    unfolding c i by auto
  have l: "length (shown F_completed) + length (shown F_incomplete) = length (shown F_all)"
    unfolding c i using sum_length_filter_compl [of "\<lambda>h. w_completed_at (h_row h) \<noteq> None" "shown F_all"]
    by simp
  have r: "set (map h_row (shown F_all)) = {w. w \<in> set (tbl_workouts s) \<and> w_user_id w = user}"
    by (auto simp: all history_rows_def passes_simps comp_def)
  from c i u d l r show ?thesis by (simp only: simp_thms)
qed

theorem history_filters_partition_witness:
  "map (w_id \<circ> h_row) (workouts (fst (fetchWorkoutHistory env_ok store2 7 (history0\<lparr>filter_choice := F_all\<rparr>))))
     = [30, 20, 10]
   \<and> map (w_id \<circ> h_row) (workouts (fst (fetchWorkoutHistory env_ok store2 7 (history0\<lparr>filter_choice := F_completed\<rparr>))))
     = [20]
   \<and> map (w_id \<circ> h_row) (workouts (fst (fetchWorkoutHistory env_ok store2 7 (history0\<lparr>filter_choice := F_incomplete\<rparr>))))
     = [30, 10]"
proof -
  let ?shown = "\<lambda>flt. workouts (fst (fetchWorkoutHistory env_ok store2 7 (history0\<lparr>filter_choice := flt\<rparr>)))"
  have ok: "fails env_ok (calls store2) = None" by (simp add: env_ok_def)
  have "history_rows store2 7 F_all
          = [tbl_workouts store2 ! 2, tbl_workouts store2 ! 1, tbl_workouts store2 ! 0]"
    by (simp add: history_rows_def passes_simps store2_def)
  then have rows: "map h_row (?shown F_all)
                     = [tbl_workouts store2 ! 2, tbl_workouts store2 ! 1, tbl_workouts store2 ! 0]"
    by (simp add: fetchWorkoutHistory_ok [OF ok] comp_def)
  note part = history_filters_partition [OF ok, of 7 history0]
  from part have "map h_row (?shown F_completed)
                    = filter (\<lambda>w. w_completed_at w \<noteq> None) (map h_row (?shown F_all))"
    by (simp add: filter_map comp_def)
  then have c: "map h_row (?shown F_completed) = [tbl_workouts store2 ! 1]"
    unfolding rows by (simp add: store2_def)
  from part have "map h_row (?shown F_incomplete)
                    = filter (\<lambda>w. w_completed_at w = None) (map h_row (?shown F_all))"
    by (simp add: filter_map comp_def)
  then have i: "map h_row (?shown F_incomplete) = [tbl_workouts store2 ! 2, tbl_workouts store2 ! 0]"
    unfolding rows by (simp add: store2_def)
  have ids: "map (w_id \<circ> h_row) (?shown flt) = map w_id (map h_row (?shown flt))" for flt
    by simp
  have "map (w_id \<circ> h_row) (?shown F_all) = [30, 20, 10]"
    unfolding ids rows by (simp add: store2_def)
  moreover have "map (w_id \<circ> h_row) (?shown F_completed) = [20]"
    unfolding ids c by (simp add: store2_def)
  moreover have "map (w_id \<circ> h_row) (?shown F_incomplete) = [30, 10]"
    unfolding ids i by (simp add: store2_def)
  ultimately show ?thesis by (simp only: simp_thms)
qed

section \<open>Clearing the weight of a set\<close>

lemma weightValue_blank [simp]: "weightValue None = None" "weightValue (Some NaN) = None"
  by (simp_all add: weightValue_def)

lemma Number_white_space: "trim txt = [] \<Longrightarrow> Number literal txt = Fin 0"
  by (simp add: Number_def)

lemma updateSetWeight_blank:
  "fails E (calls s) = None \<Longrightarrow>
   updateSetWeight E s scr setId None
     = (None, update_local scr setId (\<lambda>set. set\<lparr>sv_weight := None\<rparr>),
        s\<lparr>tbl_sets := map (\<lambda>r. if s_id r = setId then r\<lparr>s_weight := None\<rparr> else r) (tbl_sets s),
          calls := calls s + 1\<rparr>)"
  by (simp add: updateSetWeight_def update_set_ok)

text \<open>
  Claim C9, as the code has it. Leaving the weight field empty (or never filled) calls
  \<open>updateSetWeight\<close> with \<^verbatim>\<open>undefined\<close>. When the call is served there is no alert, every
  row with that id has weight NULL while all other rows are as before, and the set on
  the screen has weight \<^verbatim>\<open>null\<close>. Let the set be in the store, under a junction row of a
  workout that is there once and whose junction rows have their exercises, and let the
  first two calls of a read be served: then \<open>fetchWorkoutDetails\<close> for that workout, run on
  the store that the update left, loads the workout, and the workout it loads has the
  set, with weight \<^verbatim>\<open>null\<close>: the field is there and it is not a number. Whatever read of
  that store succeeds shows every set of that id with weight \<^verbatim>\<open>null\<close>.
\<close>

theorem blank_weight_round_trip:
  assumes blank: "text_opt = None \<or> text_opt = Some []"
    and ok: "fails E (calls s) = None"
    and edit: "weightOnEndEditing literal E s scr setId text_opt = (a, scr', s')"
    and row: "r \<in> set (tbl_sets s)" "s_id r = setId" "s_workout_exercise_id r = we_id we"
    and junction: "we \<in> set (tbl_workout_exercises s)" "we_workout_id we = wid"
    and single: "filter (\<lambda>w. w_id w = wid) (tbl_workouts s) = [w]"
    and joined: "\<forall>x \<in> set (tbl_workout_exercises s).
                   we_workout_id x = wid \<longrightarrow> (\<exists>e \<in> set (tbl_exercises s). e_id e = we_exercise_id x)"
    and read_ok: "fails E (calls s + 1) = None" "fails E (calls s + 2) = None"
  shows "weightOnEndEditing literal E s scr setId text_opt = updateSetWeight E s scr setId None
       \<and> a = None
       \<and> tbl_sets s' = map (\<lambda>r. if s_id r = setId then r\<lparr>s_weight := None\<rparr> else r) (tbl_sets s)
       \<and> (\<forall>r \<in> set (tbl_sets s'). s_id r = setId \<longrightarrow> s_weight r = None)
       \<and> (\<forall>w ex sv. workout scr' = Some w \<and> ex \<in> set (exercises w) \<and> sv \<in> set (ex_sets ex)
              \<and> sv_id sv = setId \<longrightarrow> sv_weight sv = None)
       \<and> (\<exists>scr2 s2 v ex sv.
              fetchWorkoutDetails E s' (mounted wid) = (None, scr2, s2) \<and> workout scr2 = Some v
              \<and> ex \<in> set (exercises v) \<and> sv \<in> set (ex_sets ex)
              \<and> sv_id sv = setId \<and> sv_weight sv = None)
       \<and> (\<forall>E' scr0 scr'' s'' w ex sv.
              fetchWorkoutDetails E' s' scr0 = (None, scr'', s'') \<and> workout scr'' = Some w
              \<and> ex \<in> set (exercises w) \<and> sv \<in> set (ex_sets ex) \<and> sv_id sv = setId
              \<longrightarrow> sv_weight sv = None)"
proof -
  from blank have call: "weightOnEndEditing literal E s scr setId text_opt
                           = updateSetWeight E s scr setId None"
    by (auto simp: weightOnEndEditing_def)
  from edit call have upd: "updateSetWeight E s scr setId None = (a, scr', s')"
    by simp
  with updateSetWeight_blank [OF ok, of scr setId] have a: "a = None"
    and scr': "scr' = update_local scr setId (\<lambda>set. set\<lparr>sv_weight := None\<rparr>)"
    and s': "s' = s\<lparr>tbl_sets := map (\<lambda>r. if s_id r = setId then r\<lparr>s_weight := None\<rparr> else r)
                                  (tbl_sets s),
                  calls := calls s + 1\<rparr>"
    by simp_all
  from s' have tbl: "tbl_sets s' = map (\<lambda>r. if s_id r = setId then r\<lparr>s_weight := None\<rparr> else r)
                                      (tbl_sets s)"
    by simp
  have stored: "\<forall>r \<in> set (tbl_sets s'). s_id r = setId \<longrightarrow> s_weight r = None"
  proof (intro ballI impI)
    fix r assume "r \<in> set (tbl_sets s')" and r: "s_id r = setId"
    then have "r \<in> (\<lambda>r. if s_id r = setId then r\<lparr>s_weight := None\<rparr> else r) ` set (tbl_sets s)"
      unfolding tbl set_map by simp
    then obtain r0 where "r = (if s_id r0 = setId then r0\<lparr>s_weight := None\<rparr> else r0)"
      by (rule imageE)
    with r show "s_weight r = None" by (cases "s_id r0 = setId") simp_all
  qed
  have local: "\<forall>w ex sv. workout scr' = Some w \<and> ex \<in> set (exercises w) \<and> sv \<in> set (ex_sets ex)
              \<and> sv_id sv = setId \<longrightarrow> sv_weight sv = None"
  proof (intro allI impI, elim conjE)
    fix w ex sv
    assume "workout scr' = Some w" "ex \<in> set (exercises w)" "sv \<in> set (ex_sets ex)" "sv_id sv = setId"
    then have "\<exists>x. sv = x\<lparr>sv_weight := None\<rparr>"
      unfolding scr' by (rule update_local_sets) simp
    then obtain x where "sv = x\<lparr>sv_weight := None\<rparr>" ..
    then show "sv_weight sv = None" by simp
  qed
  have read: "\<forall>E' scr0 scr'' s'' w ex sv.
              fetchWorkoutDetails E' s' scr0 = (None, scr'', s'') \<and> workout scr'' = Some w
              \<and> ex \<in> set (exercises w) \<and> sv \<in> set (ex_sets ex) \<and> sv_id sv = setId
              \<longrightarrow> sv_weight sv = None"
  proof (intro allI impI, elim conjE)
    fix E' scr0 scr'' s'' w ex sv
    assume "fetchWorkoutDetails E' s' scr0 = (None, scr'', s'')" "workout scr'' = Some w"
      "ex \<in> set (exercises w)" "sv \<in> set (ex_sets ex)" and sv: "sv_id sv = setId"
    from fetchWorkoutDetails_sets [OF this(1-4)]
    obtain r where "r \<in> set (tbl_sets s')" "sv = set_view r" by blast
    with stored sv show "sv_weight sv = None" by (simp add: set_view_def)
  qed
  have again: "\<exists>scr2 s2 v ex sv.
              fetchWorkoutDetails E s' (mounted wid) = (None, scr2, s2) \<and> workout scr2 = Some v
              \<and> ex \<in> set (exercises v) \<and> sv \<in> set (ex_sets ex)
              \<and> sv_id sv = setId \<and> sv_weight sv = None"
  proof -
    let ?r = "r\<lparr>s_weight := None\<rparr>"
    from s' read_ok have c: "fails E (calls s') = None" "fails E (calls s' + 1) = None"
      by (simp_all add: add.commute)
    from s' single have single': "filter (\<lambda>w. w_id w = wid) (tbl_workouts s') = [w]" by simp
    from s' joined have joined': "\<forall>x \<in> set (tbl_workout_exercises s').
        we_workout_id x = wid \<longrightarrow> (\<exists>e \<in> set (tbl_exercises s'). e_id e = we_exercise_id x)"
      by simp
    from fetchWorkoutDetails_reads [OF c single' joined']
    obtain scr2 s2 where run: "fetchWorkoutDetails E s' (mounted wid) = (None, scr2, s2)"
      by blast
    from row(1,2) have "?r \<in> set (tbl_sets s')"
      unfolding tbl set_map by (auto intro: rev_image_eqI)
    moreover from junction s' have "we \<in> set (tbl_workout_exercises s')"
      and "we_workout_id we = workoutId (mounted wid)"
      by (simp_all add: mounted_def)
    moreover from row(3) have "s_workout_exercise_id ?r = we_id we" by simp
    ultimately obtain v ex where "workout scr2 = Some v" "ex \<in> set (exercises v)"
      "set_view ?r \<in> set (ex_sets ex)"
      using fetchWorkoutDetails_covers [OF run] by blast
    moreover from row(2) have "sv_id (set_view ?r) = setId" "sv_weight (set_view ?r) = None"
      by (simp_all add: set_view_def)
    ultimately show ?thesis using run by blast
  qed
  show ?thesis
    using call a tbl stored local again read by - (intro conjI; assumption)
qed

theorem blank_weight_round_trip_witness:
  "fst (weightOnEndEditing (\<lambda>txt. NaN) env_ok store1 detail1 13 (Some [])) = None
   \<and> map s_weight (tbl_sets store1) = [None, Some (Fin 60), None]
   \<and> map s_weight (tbl_sets (snd (snd (weightOnEndEditing (\<lambda>txt. NaN) env_ok store1 detail1 13 (Some [])))))
       = [None, None, None]
   \<and> (\<exists>scr2 s2 v ex sv.
         fetchWorkoutDetails env_ok
             (snd (snd (weightOnEndEditing (\<lambda>txt. NaN) env_ok store1 detail1 13 (Some []))))
             (mounted 10) = (None, scr2, s2)
       \<and> workout scr2 = Some v \<and> ex \<in> set (exercises v) \<and> sv \<in> set (ex_sets ex)
       \<and> sv_id sv = 13 \<and> sv_weight sv = None)"
proof -
  let ?r = "weightOnEndEditing (\<lambda>txt. NaN) env_ok store1 detail1 13 (Some [])"
  let ?row = "\<lparr>s_id = 13, s_workout_exercise_id = 11, s_weight = Some (Fin 60), s_reps = Fin 5,
               s_completed = False, s_created_at = 1002\<rparr>"
  let ?we = "\<lparr>we_id = 11, we_workout_id = 10, we_exercise_id = 1, we_order = 0,
              we_created_at = 1001\<rparr>"
  let ?w = "\<lparr>w_id = 10, w_user_id = 7, w_name = [76, 101, 103, 115],
             w_description = None, w_created_at = 1000, w_completed_at = None\<rparr>"
  have blank: "Some [] = None \<or> Some ([] :: jsstring) = Some []" by simp
  have ok: "fails env_ok (calls store1) = None" by (simp add: env_ok_def)
  have edit: "?r = (fst ?r, fst (snd ?r), snd (snd ?r))" by simp
  have row: "?row \<in> set (tbl_sets store1)" "s_id ?row = 13" "s_workout_exercise_id ?row = we_id ?we"
    by (simp_all add: store1_def)
  have junction: "?we \<in> set (tbl_workout_exercises store1)" "we_workout_id ?we = 10"
    by (simp_all add: store1_def)
  have single: "filter (\<lambda>w. w_id w = 10) (tbl_workouts store1) = [?w]"
    by (simp add: store1_def)
  have joined: "\<forall>x \<in> set (tbl_workout_exercises store1).
                  we_workout_id x = 10 \<longrightarrow> (\<exists>e \<in> set (tbl_exercises store1). e_id e = we_exercise_id x)"
    by (simp add: store1_def store0_def)
  have read_ok: "fails env_ok (calls store1 + 1) = None" "fails env_ok (calls store1 + 2) = None"
    by (simp_all add: env_ok_def)
  note facts = blank_weight_round_trip [OF blank ok edit row junction single joined read_ok]
  from facts have "fst ?r = None"
    and "tbl_sets (snd (snd ?r))
           = map (\<lambda>r. if s_id r = 13 then r\<lparr>s_weight := None\<rparr> else r) (tbl_sets store1)"
    by blast+
  then have "fst ?r = None" "map s_weight (tbl_sets store1) = [None, Some (Fin 60), None]"
    "map s_weight (tbl_sets (snd (snd ?r))) = [None, None, None]"
    by (simp_all add: store1_def)
  moreover from facts have "\<exists>scr2 s2 v ex sv.
         fetchWorkoutDetails env_ok (snd (snd ?r)) (mounted 10) = (None, scr2, s2)
       \<and> workout scr2 = Some v \<and> ex \<in> set (exercises v) \<and> sv \<in> set (ex_sets ex)
       \<and> sv_id sv = 13 \<and> sv_weight sv = None"
    by blast
  ultimately show ?thesis by - (intro conjI; assumption)
qed

text \<open>
  Claim C9 as stated fails for a field that is blank without being empty. The handler
  takes only the empty text for no weight; a text of white space goes through \<^verbatim>\<open>Number\<close>,
  which reads it as 0, and 0 is what the update stores.
\<close>

theorem white_space_weight_is_zero:
  "Number (\<lambda>txt. NaN) [32] = Fin 0
   \<and> fst (weightOnEndEditing (\<lambda>txt. NaN) env_ok store1 detail1 12 (Some [32])) = None
   \<and> map s_weight (tbl_sets store1) = [None, Some (Fin 60), None]
   \<and> map s_weight
       (tbl_sets (snd (snd (weightOnEndEditing (\<lambda>txt. NaN) env_ok store1 detail1 12 (Some [32])))))
       = [Some (Fin 0), Some (Fin 60), None]"
  by (simp add: weightOnEndEditing_def Number_def trim_def isWhiteSpace_def updateSetWeight_def
      update_set_def weightValue_def DECIMAL_5_2_def called_def env_ok_def store1_def)

section \<open>The repetitions sent to the store\<close>






lemma updateSetReps_cases:
  obtains (failed) msg where
      "updateSetReps E s scr setId x = (Some (Alert ''Error'' msg), scr, s\<lparr>calls := calls s + 1\<rparr>)"
  | (written)
      "reps_fits (safeReps x) \<or> \<not> list_ex (\<lambda>r. s_id r = setId) (tbl_sets s)"
      "updateSetReps E s scr setId x
         = (None, update_local scr setId (\<lambda>set. set\<lparr>sv_reps := safeReps x\<rparr>),
            s\<lparr>tbl_sets := map (\<lambda>r. if s_id r = setId then r\<lparr>s_reps := safeReps x\<rparr> else r)
                               (tbl_sets s),
              calls := calls s + 1\<rparr>)"
proof (cases rule: update_set_cases [of E s setId "Set_reps (safeReps x)"])
  case (failed msg)
  then have "updateSetReps E s scr setId x
               = (Some (Alert ''Error'' msg), scr, s\<lparr>calls := calls s + 1\<rparr>)"
    by (simp add: updateSetReps_def)
  then show ?thesis by (rule that(1))
next
  case written
  from written(2) have "updateSetReps E s scr setId x
         = (None, update_local scr setId (\<lambda>set. set\<lparr>sv_reps := safeReps x\<rparr>),
            s\<lparr>tbl_sets := map (\<lambda>r. if s_id r = setId then r\<lparr>s_reps := safeReps x\<rparr> else r)
                               (tbl_sets s),
              calls := calls s + 1\<rparr>)"
    by (simp add: updateSetReps_def)
  with written(1) show ?thesis by (auto intro: that(2))
qed




section \<open>The progress percentage\<close>

lemma progress_screen_counts:
  "c \<le> t \<Longrightarrow> getCompletedSets (progress_screen c t) = c \<and> getTotalSets (progress_screen c t) = t"
  by (simp add: getCompletedSets_def getTotalSets_def progress_screen_def done_set_def open_set_def)

lemma bits_zero [simp]: "bits 0 = 0"
  by (subst bits.simps) simp

lemma bits_numeral [simp]: "bits (numeral k) = Suc (bits (numeral k div 2))"
  by (subst bits.simps) simp

lemma bits_one [simp]: "bits (Suc 0) = 1"
  by (subst bits.simps) simp

text \<open>
  The division of two counts is rounded correctly. The result of \<open>nearest_double n d\<close>
  is a mantissa of 53 bits with an exponent, and it lies within half a unit in the last
  place of the quotient \<open>n / d\<close>; a tie goes to the even mantissa.
\<close>

lemma pow2_pos: "0 < pow2 e"
  by (simp add: pow2_def)

lemma pow2_Suc: "pow2 (e + 1) = 2 * pow2 e"
proof (cases "0 \<le> e")
  case True
  then show ?thesis by (simp add: pow2_def nat_add_distrib)
next
  case False
  then have "nat (- e) = Suc (nat (- (e + 1)))" by simp
  with False show ?thesis by (simp add: pow2_def)
qed

lemma round_to_even_error:
  fixes N D :: nat
  assumes D: "0 < D"
  shows "\<bar>(of_nat (round_to_even N D) :: rat) - of_nat N / of_nat D\<bar> \<le> 1 / 2"
proof -
  define m where "m = round_to_even N D"
  have split: "(of_nat N :: rat) = of_nat (N div D) * of_nat D + of_nat (N mod D)"
    by (metis div_mult_mod_eq of_nat_add of_nat_mult)
  have Dpos: "(0::rat) < of_nat D" using D by simp
  have frac: "(of_nat N :: rat) / of_nat D = of_nat (N div D) + of_nat (N mod D) / of_nat D"
    using Dpos by (simp add: split add_divide_distrib)
  have r_lt: "(of_nat (N mod D) :: rat) < of_nat D" using D by simp
  define x :: rat where "x = of_nat (N mod D) / of_nat D"
  have x0: "0 \<le> x" by (simp add: x_def)
  have x1: "x < 1" using Dpos r_lt by (simp add: x_def)
  show ?thesis
  proof (cases "2 * (N mod D) < D \<or> (2 * (N mod D) = D \<and> even (N div D))")
    case True
    then have m: "m = N div D" by (simp add: m_def round_to_even_def)
    from True have "2 * (N mod D) \<le> D" by auto
    then have "(2::rat) * of_nat (N mod D) \<le> of_nat D"
      by (metis of_nat_le_iff of_nat_mult of_nat_numeral)
    then have "x \<le> 1 / 2"
      using Dpos by (simp add: x_def field_simps)
    moreover have "of_nat m - of_nat N / of_nat D = - x"
      by (simp add: m frac x_def)
    ultimately show ?thesis using x0 by (simp add: m_def [symmetric])
  next
    case False
    then have m: "m = N div D + 1" by (simp add: m_def round_to_even_def)
    from False have "D \<le> 2 * (N mod D)" by auto
    then have "(of_nat D :: rat) \<le> 2 * of_nat (N mod D)"
      by (metis of_nat_le_iff of_nat_mult of_nat_numeral)
    then have "1 / 2 \<le> x"
      using Dpos by (simp add: x_def field_simps)
    moreover have "of_nat m - of_nat N / of_nat D = 1 - x"
      by (simp add: m frac x_def)
    ultimately show ?thesis using x1 by (simp add: m_def [symmetric])
  qed
qed


lemma round_to_even_range: "N div D \<le> round_to_even N D \<and> round_to_even N D \<le> N div D + 1"
  by (simp add: round_to_even_def)

lemma nearest_double_error:
  assumes n: "0 < n" and d: "0 < d"
  shows "\<bar>double_value (nearest_double n d) - of_nat n / of_nat d\<bar>
           \<le> pow2 (snd (nearest_double n d)) / 2"
proof -
  define e0 where "e0 = int (bits n) - int (bits d) - 53"
  define N where "N = (if e0 < 0 then n * 2 ^ nat (- e0) else n)"
  define D where "D = (if e0 < 0 then d else d * 2 ^ nat e0)"
  define e where "e = (if N div D < 2 ^ 53 then e0 else e0 + 1)"
  define D' where "D' = (if N div D < 2 ^ 53 then D else 2 * D)"
  have nd: "nearest_double n d = (round_to_even N D', e)"
    using n unfolding nearest_double_def Let_def e_def D'_def N_def D_def e0_def
    by simp
  have Dpos: "0 < D" using d by (simp add: D_def)
  then have D'pos: "0 < D'" by (simp add: D'_def)
  have scale0: "(of_nat n :: rat) / of_nat d = of_nat N / of_nat D * pow2 e0"
  proof (cases "e0 < 0")
    case True
    then show ?thesis using d by (simp add: N_def D_def pow2_def)
  next
    case False
    then show ?thesis using d by (simp add: N_def D_def pow2_def)
  qed
  have scale: "(of_nat n :: rat) / of_nat d = of_nat N / of_nat D' * pow2 e"
    unfolding scale0 by (simp add: D'_def e_def pow2_Suc)
  define m where "m = round_to_even N D'"
  have "\<bar>(of_nat m :: rat) - of_nat N / of_nat D'\<bar> \<le> 1 / 2"
    unfolding m_def by (rule round_to_even_error [OF D'pos])
  then have "\<bar>(of_nat m :: rat) - of_nat N / of_nat D'\<bar> * pow2 e \<le> 1 / 2 * pow2 e"
    using pow2_pos [of e] by (simp add: mult_le_cancel_right)
  moreover have "of_nat m * pow2 e - of_nat N / of_nat D' * pow2 e
                   = ((of_nat m :: rat) - of_nat N / of_nat D') * pow2 e"
    by (simp add: left_diff_distrib)
  then have "\<bar>of_nat m * pow2 e - of_nat N / of_nat D' * pow2 e\<bar>
               = \<bar>(of_nat m :: rat) - of_nat N / of_nat D'\<bar> * pow2 e"
    using pow2_pos [of e] by (simp only: abs_mult abs_of_pos)
  ultimately show ?thesis
    by (simp add: nd double_value_def scale m_def)
qed

lemma bits_bounds: "0 < n \<Longrightarrow> 2 ^ bits n \<le> 2 * n \<and> n < 2 ^ bits n"
proof (induction n rule: bits.induct)
  case (1 n)
  from "1.prems" have unfold: "bits n = Suc (bits (n div 2))"
    by (subst bits.simps) simp
  show ?case
  proof (cases "n div 2 = 0")
    case True
    with "1.prems" have "n = 1" by (simp add: div_eq_0_iff) 
    with unfold show ?thesis by (simp add: bits.simps [of 0])
  next
    case False
    with "1.prems" "1.IH" have ih: "2 ^ bits (n div 2) \<le> 2 * (n div 2)" "n div 2 < 2 ^ bits (n div 2)"
      by simp_all
    have "2 * (n div 2) \<le> n" by simp
    with ih(1) have lo: "2 ^ bits n \<le> 2 * n" by (simp add: unfold)
    have "n < 2 * (n div 2) + 2" by presburger
    moreover from ih(2) have "2 * (n div 2) + 2 \<le> 2 * 2 ^ bits (n div 2)" by simp
    ultimately have "n < 2 ^ bits n" by (simp add: unfold)
    with lo show ?thesis by simp
  qed
qed


lemma scaled_range:
  assumes n: "0 < n" and d: "0 < d"
  defines "e0 \<equiv> int (bits n) - int (bits d) - 53"
  defines "N \<equiv> (if e0 < 0 then n * 2 ^ nat (- e0) else n)"
  defines "D \<equiv> (if e0 < 0 then d else d * 2 ^ nat e0)"
  shows "2 ^ 52 * D < N \<and> N < 2 ^ 54 * D"
proof -
  define A :: nat where "A = 2 ^ bits n"
  define B :: nat where "B = 2 ^ bits d"
  from bits_bounds [OF n] have nlo: "A \<le> 2 * n" and nhi: "n < A" by (simp_all add: A_def)
  from bits_bounds [OF d] have dlo: "B \<le> 2 * d" and dhi: "d < B" by (simp_all add: B_def)
  show ?thesis
  proof (cases "e0 < 0")
    case True
    define k where "k = nat (- e0)"
    define K :: nat where "K = 2 ^ k"
    have Kpos: "0 < K" by (simp add: K_def)
    from True have "bits n + k = bits d + 53" by (simp add: k_def e0_def)
    then have "(2::nat) ^ (bits n + k) = 2 ^ (bits d + 53)" by simp
    then have AK: "A * K = 2 ^ 53 * B" by (simp add: A_def B_def K_def power_add mult.commute)
    have N: "N = n * K" and D: "D = d" using True by (simp_all add: N_def D_def K_def k_def)
    define X where "X = n * K"
    from nlo have "A * K \<le> 2 * n * K" by simp
    with AK have 1: "2 ^ 53 * B \<le> 2 * X" by (simp add: X_def mult.assoc)
    from dhi have 2: "2 ^ 53 * d < 2 ^ 53 * B" by simp
    from 1 2 have lo: "2 ^ 52 * d < X" by simp
    from nhi Kpos have "n * K < A * K" by simp
    with AK have 3: "X < 2 ^ 53 * B" by (simp add: X_def)
    from dlo have "2 ^ 53 * B \<le> 2 ^ 53 * (2 * d)" by simp
    with 3 have hi: "X < 2 ^ 54 * d" by simp
    from lo hi show ?thesis by (simp add: N D X_def)
  next
    case False
    define j where "j = nat e0"
    define J :: nat where "J = 2 ^ j"
    have Jpos: "0 < J" by (simp add: J_def)
    from False have "bits n = bits d + 53 + j" by (simp add: j_def e0_def)
    then have "(2::nat) ^ bits n = 2 ^ (bits d + 53 + j)" by simp
    then have A: "A = 2 ^ 53 * (B * J)" by (simp add: A_def B_def J_def power_add mult.commute mult.left_commute)
    have N: "N = n" and D: "D = d * J" using False by (simp_all add: N_def D_def J_def j_def)
    define Y where "Y = d * J"
    define Z where "Z = B * J"
    from dhi Jpos have 1: "Y < Z" by (simp add: Y_def Z_def)
    from dlo have 2: "Z \<le> 2 * Y" by (simp add: Y_def Z_def)
    from A have A': "A = 2 ^ 53 * Z" by (simp add: Z_def)
    from A' nlo 1 have lo: "2 ^ 52 * Y < n" by simp
    from A' nhi 2 have hi: "n < 2 ^ 54 * Y" by simp
    from lo hi show ?thesis by (simp add: N D Y_def)
  qed
qed

lemma nearest_double_mantissa:
  assumes n: "0 < n" and d: "0 < d"
  shows "2 ^ 52 \<le> fst (nearest_double n d) \<and> fst (nearest_double n d) \<le> 2 ^ 53"
proof -
  define e0 where "e0 = int (bits n) - int (bits d) - 53"
  define N where "N = (if e0 < 0 then n * 2 ^ nat (- e0) else n)"
  define D where "D = (if e0 < 0 then d else d * 2 ^ nat e0)"
  have Dpos: "0 < D" using d by (simp add: D_def)
  have "2 ^ 52 * D < N \<and> N < 2 ^ 54 * D"
    unfolding N_def D_def e0_def by (rule scaled_range [OF n d])
  then have lo: "2 ^ 52 * D < N" and hi: "N < 2 ^ 54 * D"
    by blast+
  from lo Dpos have qlo: "2 ^ 52 \<le> N div D"
    by (simp add: less_eq_div_iff_mult_less_eq)
  from hi Dpos have qhi: "N div D < 2 ^ 54"
    by (simp add: div_less_iff_less_mult)
  show ?thesis
  proof (cases "N div D < 2 ^ 53")
    case True
    then have "fst (nearest_double n d) = round_to_even N D"
      using n unfolding nearest_double_def Let_def N_def D_def e0_def by simp
    with round_to_even_range [of N D] qlo True show ?thesis by simp
  next
    case False
    then have m: "fst (nearest_double n d) = round_to_even N (2 * D)"
      using n unfolding nearest_double_def Let_def N_def D_def e0_def by simp
    have half: "N div (2 * D) = N div D div 2"
      by (simp add: div_mult2_eq mult.commute)
    from False have "2 ^ 52 \<le> N div D div 2" by simp
    moreover from qhi have "N div D div 2 < 2 ^ 53" by simp
    ultimately show ?thesis
      using round_to_even_range [of N "2 * D"] by (simp add: m half)
  qed
qed

text \<open>The model of double-precision rounding on known values: one tenth is the double
  \<open>7205759403792794 * 2 ^ - 56\<close>, and two thirds of a workout show as 67 percent.\<close>

lemma double_one_tenth: "js_div (num 1) (num 10) = (7205759403792794, - 56)"
  by (simp add: js_div_def num_def nearest_double_def round_to_even_def Let_def)

lemma double_2_3: "js_div (num 2) (num 3) = (6004799503160661, - 53)"
  by (simp add: js_div_def num_def nearest_double_def round_to_even_def Let_def)

lemma double_2_3_times_100:
  "js_mul (6004799503160661, - 53) (num 100) = (4691249611844266, - 46)"
  by (simp add: js_mul_def num_def nearest_double_def round_to_even_def Let_def)

lemma percentage_2_3: "Math_round (percentage 2 3) = 67"
proof -
  have "percentage 2 3 = (4691249611844266, - 46)"
    by (simp add: percentage_def double_2_3 double_2_3_times_100)
  then show ?thesis by (simp add: Math_round_def)
qed

lemma percentage_zero_total: "Math_round (percentage c 0) = 0"
  by (simp add: percentage_def num_def Math_round_def)

lemma double_23_40: "js_div (num 23) (num 40) = (5179139571476070, - 53)"
  by (simp add: js_div_def num_def nearest_double_def round_to_even_def Let_def)

lemma double_23_40_times_100:
  "js_mul (5179139571476070, - 53) (num 100) = (8092405580431359, - 47)"
  by (simp add: js_mul_def num_def nearest_double_def round_to_even_def Let_def)

lemma percentage_23_40: "percentage 23 40 = (8092405580431359, - 47)"
  by (simp add: percentage_def double_23_40 double_23_40_times_100)

lemma round_23_40: "Math_round (8092405580431359, - 47) = 57"
  by (simp add: Math_round_def)

text \<open>
  Claim C5. The claim is that the percentage shown is \<open>100 * completedSets / totalSets\<close>
  rounded half up. The code divides first and multiplies by 100 afterwards, each in
  double precision: for 23 completed sets of 40 the quotient is the double just below
  0.575, its product with 100 is the double just below 57.5, and \<^verbatim>\<open>Math.round\<close> shows
  57, while \<open>100 * 23 / 40 = 57.5\<close> rounds half up to 58.
\<close>

theorem progress_23_of_40:
  "getCompletedSets (progress_screen 23 40) = 23
   \<and> getTotalSets (progress_screen 23 40) = 40
   \<and> percentComplete (progress_screen 23 40) = 57
   \<and> \<lfloor>(100 * 23 / 40 :: rat) + 1 / 2\<rfloor> = 58"
proof -
  have "(23::nat) \<le> 40" by simp
  note counts = progress_screen_counts [OF this]
  have "\<lfloor>(100 * 23 / 40 :: rat) + 1 / 2\<rfloor> = 58" by simp
  with counts show ?thesis
    by (simp add: percentComplete_def progressPercentage_def percentage_23_40 round_23_40)
qed

section \<open>The column of previous sets\<close>

lemma digits_numeral [simp]:
  "digits (numeral k) =
     (if numeral k < (10::nat) then [''0123456789'' ! numeral k]
      else digits (numeral k div 10) @ [''0123456789'' ! (numeral k mod 10)])"
  by (rule digits.simps)

lemma digits_small [simp]: "digits 0 = ''0''" "digits (Suc 0) = ''1''"
  by (subst digits.simps, simp)+

lemma show_examples:
  "showNumber (Fin 100) = ''100''" "showNumber (Fin 8) = ''8''"
  "showNumber (Fin (105 / 2)) = ''52.5''" "showNumber (Fin (- 5 / 4)) = ''-1.25''"
  by (simp_all add: showNumber_def Let_def)

lemma prevText_cases:
  "prevText String prevSets k =
     (if k < length prevSets \<and> pv_weight (prevSets ! k) \<noteq> None \<and> pv_reps (prevSets ! k) \<noteq> None
      then String (the (pv_weight (prevSets ! k))) @ ''x'' @ String (the (pv_reps (prevSets ! k)))
      else ''-'')"
  by (auto simp: prevText_def split: option.splits)

lemma formatted_not_placeholder: "a @ ''x'' @ b \<noteq> ''-''"
proof
  assume "a @ ''x'' @ b = ''-''"
  then have "CHR ''x'' \<in> set ''-''" by (metis in_set_conv_decomp append_Cons)
  then show False by simp
qed

text \<open>
  Claim C4, as the code has it. For the \<open>k\<close>-th set of an exercise card the column has
  one cell; it shows the \<open>k\<close>-th previous set as weight, \<open>x\<close> and reps when that set
  exists and has both a weight and reps, and it shows the placeholder \<open>-\<close> exactly when
  the list of previous sets is too short or the \<open>k\<close>-th previous set has no weight or no
  reps.
\<close>

theorem previous_column_alignment:
  fixes String :: "jsnum \<Rightarrow> string" and scr :: detail_screen and exercise :: ExerciseView
  assumes k: "k < length (ex_sets exercise)"
  defines "prevSets \<equiv> (case previousByExerciseId scr (ex_id exercise) of None \<Rightarrow> [] | Some ps \<Rightarrow> ps)"
  shows "length (previousColumn String scr exercise) = length (ex_sets exercise)
       \<and> (\<forall>w r. k < length prevSets \<and> pv_weight (prevSets ! k) = Some w \<and> pv_reps (prevSets ! k) = Some r
              \<longrightarrow> previousColumn String scr exercise ! k = String w @ ''x'' @ String r)
       \<and> (previousColumn String scr exercise ! k = ''-''
            \<longleftrightarrow> length prevSets \<le> k \<or> pv_weight (prevSets ! k) = None \<or> pv_reps (prevSets ! k) = None)"
proof -
  have cell: "previousColumn String scr exercise ! k = prevText String prevSets k"
    using k by (simp add: previousColumn_def prevSets_def)
  have len: "length (previousColumn String scr exercise) = length (ex_sets exercise)"
    by (simp add: previousColumn_def)
  have shown: "\<forall>w r. k < length prevSets \<and> pv_weight (prevSets ! k) = Some w \<and> pv_reps (prevSets ! k) = Some r
              \<longrightarrow> previousColumn String scr exercise ! k = String w @ ''x'' @ String r"
    unfolding cell by (simp add: prevText_def)
  have dash: "previousColumn String scr exercise ! k = ''-''
            \<longleftrightarrow> length prevSets \<le> k \<or> pv_weight (prevSets ! k) = None \<or> pv_reps (prevSets ! k) = None"
    unfolding cell prevText_cases using formatted_not_placeholder by auto
  show ?thesis
    using len shown dash by - (intro conjI; assumption)
qed

theorem previous_column_alignment_witness:
  "length (previousColumn showNumber
             (with_previous [\<lparr>pv_weight = Some (Fin 100), pv_reps = Some (Fin 8)\<rparr>,
                             \<lparr>pv_weight = Some (Fin 105), pv_reps = Some (Fin 6)\<rparr>]) three_sets) = 3
   \<and> previousColumn showNumber
         (with_previous [\<lparr>pv_weight = Some (Fin 100), pv_reps = Some (Fin 8)\<rparr>,
                         \<lparr>pv_weight = Some (Fin 105), pv_reps = Some (Fin 6)\<rparr>]) three_sets ! 0 = ''100x8''
   \<and> previousColumn showNumber
         (with_previous [\<lparr>pv_weight = Some (Fin 100), pv_reps = Some (Fin 8)\<rparr>,
                         \<lparr>pv_weight = Some (Fin 105), pv_reps = Some (Fin 6)\<rparr>]) three_sets ! 1 = ''105x6''
   \<and> previousColumn showNumber
         (with_previous [\<lparr>pv_weight = Some (Fin 100), pv_reps = Some (Fin 8)\<rparr>,
                         \<lparr>pv_weight = Some (Fin 105), pv_reps = Some (Fin 6)\<rparr>]) three_sets ! 2 = ''-''"
proof -
  let ?scr = "with_previous [\<lparr>pv_weight = Some (Fin 100), pv_reps = Some (Fin 8)\<rparr>,
                             \<lparr>pv_weight = Some (Fin 105), pv_reps = Some (Fin 6)\<rparr>]"
  have k0: "0 < length (ex_sets three_sets)" and k1: "1 < length (ex_sets three_sets)"
    and k2: "2 < length (ex_sets three_sets)"
    by (simp_all add: three_sets_def)
  have prev: "(case previousByExerciseId ?scr (ex_id three_sets) of None \<Rightarrow> [] | Some ps \<Rightarrow> ps)
                = [\<lparr>pv_weight = Some (Fin 100), pv_reps = Some (Fin 8)\<rparr>,
                   \<lparr>pv_weight = Some (Fin 105), pv_reps = Some (Fin 6)\<rparr>]"
    by (simp add: with_previous_def three_sets_def)
  note a0 = previous_column_alignment [OF k0, of showNumber ?scr, unfolded prev]
  note a1 = previous_column_alignment [OF k1, of showNumber ?scr, unfolded prev]
  note a2 = previous_column_alignment [OF k2, of showNumber ?scr, unfolded prev]
  from a0 have "length (previousColumn showNumber ?scr three_sets) = 3"
    by (simp add: three_sets_def)
  moreover from a0 have "previousColumn showNumber ?scr three_sets ! 0 = ''100x8''"
    by (simp add: showNumber_def Let_def)
  moreover from a1 have "previousColumn showNumber ?scr three_sets ! 1 = ''105x6''"
    by (simp add: showNumber_def Let_def)
  moreover from a2 have "previousColumn showNumber ?scr three_sets ! 2 = ''-''"
    by simp
  ultimately show ?thesis by - (intro conjI; assumption)
qed

text \<open>
  Claim C4 as stated fails: the placeholder is not only shown when the index is out of
  range. The first set of workout 10 in \<open>store1\<close> was created without a weight, as the
  composer creates every set by default; a later workout reads it as its previous set at
  index 0 and shows the placeholder for it.
\<close>

theorem placeholder_for_null_weight:
  "previousSets (fst (select_previous env_ok store1 1 5000 7))
     = [\<lparr>pv_weight = None, pv_reps = Some (Fin 8)\<rparr>,
        \<lparr>pv_weight = Some (Fin 60), pv_reps = Some (Fin 5)\<rparr>]
   \<and> previousColumn showNumber
         (with_previous (previousSets (fst (select_previous env_ok store1 1 5000 7)))) three_sets
       = [''-'', ''60x5'', ''-'']
   \<and> \<not> length (previousSets (fst (select_previous env_ok store1 1 5000 7))) < 0 + 1"
proof -
  have prev: "previousSets (fst (select_previous env_ok store1 1 5000 7))
     = [\<lparr>pv_weight = None, pv_reps = Some (Fin 8)\<rparr>,
        \<lparr>pv_weight = Some (Fin 60), pv_reps = Some (Fin 5)\<rparr>]"
    by (simp add: select_previous_def previous_rows_def inner_workouts_def previousSets_def
        sets_of_def prev_set_def env_ok_def store1_def)
  have "previousColumn showNumber
         (with_previous [\<lparr>pv_weight = None, pv_reps = Some (Fin 8)\<rparr>,
                         \<lparr>pv_weight = Some (Fin 60), pv_reps = Some (Fin 5)\<rparr>]) three_sets
       = [''-'', ''60x5'', ''-'']"
    by (simp add: previousColumn_def prevText_def with_previous_def three_sets_def
        showNumber_def Let_def upt_rec)
  with prev show ?thesis by simp
qed

section \<open>The completion gate\<close>

lemma addExercises_workouts: "tbl_workouts (snd (addExercises E s wid i fs)) = tbl_workouts s"
proof (induction fs arbitrary: s i)
  case Nil
  then show ?case by simp
next
  case (Cons f fs)
  let ?s1 = "s\<lparr>tbl_workout_exercises := tbl_workout_exercises s @
            [\<lparr>we_id = next_id s, we_workout_id = wid, we_exercise_id = exercise_id f, we_order = i,
              we_created_at = clock E (calls s)\<rparr>],
         next_id := next_id s + 1, calls := calls s + 1\<rparr>"
  have c1: "calls ?s1 = calls s + 1" by simp
  show ?case
  proof (cases "fails E (calls s)")
    case (Some msg)
    then show ?thesis by (simp add: insert_workout_exercise_fail)
  next
    case None
    note first = this
    show ?thesis
    proof (cases rule: loop_error_cases [of E "calls s" "f # fs" "Suc 0"])
      case (1 msg)
      from first insert_sets_error [OF 1 c1] show ?thesis
        by (simp add: insert_workout_exercise_ok)
    next
      case 2
      from first insert_sets_no_error [OF 2 c1] show ?thesis
        by (simp add: insert_workout_exercise_ok Cons.IH)
    qed
  qed
qed

lemma createWorkout_workouts:
  "prefix (tbl_workouts s) (tbl_workouts (snd (createWorkout E s user nm descr sels)))
   \<and> (\<forall>i \<ge> length (tbl_workouts s). i < length (tbl_workouts (snd (createWorkout E s user nm descr sels)))
        \<longrightarrow> w_completed_at (tbl_workouts (snd (createWorkout E s user nm descr sels)) ! i) = None)"
proof (cases "trim nm = [] \<or> sels = []")
  case True
  then show ?thesis by (auto simp: createWorkout_def)
next
  case False
  show ?thesis
  proof (cases "fails E (calls s)")
    case (Some msg)
    with False show ?thesis by (simp add: createWorkout_def insert_workout_fail)
  next
    case None
    with False show ?thesis
      by (auto simp: createWorkout_def insert_workout_ok addExercises_workouts nth_append)
  qed
qed

lemma update_completed_at_ok:
  "fails E (calls s) = None \<Longrightarrow>
   update_completed_at E s wid now =
     (Inr (), s\<lparr>tbl_workouts := map (\<lambda>w. if w_id w = wid then w\<lparr>w_completed_at := Some now\<rparr> else w)
                                   (tbl_workouts s),
                calls := calls s + 1\<rparr>)"
  by (simp add: update_completed_at_def called_def)

lemma update_completed_at_fail:
  "fails E (calls s) = Some msg \<Longrightarrow>
   update_completed_at E s wid now = (Inl msg, s\<lparr>calls := calls s + 1\<rparr>)"
  by (simp add: update_completed_at_def called_def)

lemma button_enabled:
  "completeWorkoutButton scr = Enabled \<longleftrightarrow>
     \<not> loading scr \<and> (\<exists>v. workout scr = Some v \<and> w_completed_at (wv_row v) = None)
     \<and> getCompletedSets scr = getTotalSets scr"
  by (auto simp: completeWorkoutButton_def split: option.splits)

lemma fetch_done:
  "fetchWorkoutDetails env_ok store_done (mounted 10) = (None, detail_done, store_done\<lparr>calls := 9\<rparr>)"
  by (simp add: fetchWorkoutDetails_def select_workout_def select_workout_exercises_def
      select_previous_def previous_rows_def inner_workouts_def previousSets_def
      join_exercise_def sets_of_def set_view_def called_def mounted_def detail_done_def
      env_ok_def store_done_def store1_def store0_def)

lemma partial_run:
  "createWorkout (failing_at 1) store0 7 name0 [] draft0
     = (Alert ''Error'' ''network error'', store_header)"
  by (simp add: createWorkout_def trim_name0 trim_empty draft0_def insert_workout_def
      insert_workout_exercise_def called_def Let_def failing_at_def store0_def store_header_def)

lemma fetch_header:
  "fetchWorkoutDetails env_ok store_header (mounted 10)
     = (None, detail_header, store_header\<lparr>calls := 4\<rparr>)"
  by (simp add: fetchWorkoutDetails_def select_workout_def select_workout_exercises_def
      called_def mounted_def detail_header_def env_ok_def store_header_def)

text \<open>
  The two counts of the detail screen are sums over the exercises of the workout. The
  completed sets are among the sets, so the counts are equal exactly when every set is
  completed.
\<close>

lemma foldl_count:
  fixes f :: "'a \<Rightarrow> nat"
  shows "foldl (\<lambda>total x. total + f x) a xs = a + sum_list (map f xs)"
  by (induction xs arbitrary: a) (simp_all add: add.assoc)

lemma sum_list_equal_parts:
  fixes c t :: "'a \<Rightarrow> nat"
  assumes "\<forall>x \<in> set xs. c x \<le> t x" and "sum_list (map c xs) = sum_list (map t xs)"
    and "x \<in> set xs"
  shows "c x = t x"
  using assms
proof (induction xs)
  case Nil
  then show ?case by simp
next
  case (Cons a xs)
  then have le: "sum_list (map c xs) \<le> sum_list (map t xs)" and a: "c a \<le> t a"
    by (simp_all add: sum_list_mono)
  with Cons.prems(2) have "c a = t a" and "sum_list (map c xs) = sum_list (map t xs)"
    by simp_all
  with Cons show ?case by auto
qed

lemma getTotalSets_sum:
  "workout scr = Some w \<Longrightarrow> getTotalSets scr = sum_list (map (\<lambda>ex. length (ex_sets ex)) (exercises w))"
  by (simp add: getTotalSets_def foldl_count)

lemma getCompletedSets_sum:
  "workout scr = Some w \<Longrightarrow>
   getCompletedSets scr = sum_list (map (\<lambda>ex. length (filter sv_completed (ex_sets ex))) (exercises w))"
  by (simp add: getCompletedSets_def foldl_count)

lemma getCompletedSets_le: "getCompletedSets scr \<le> getTotalSets scr"
proof (cases "workout scr")
  case None
  then show ?thesis by (simp add: getCompletedSets_def getTotalSets_def)
next
  case (Some w)
  then show ?thesis
    by (simp add: getCompletedSets_sum getTotalSets_sum sum_list_mono)
qed

lemma all_sets_completed:
  assumes "workout scr = Some w" and "getCompletedSets scr = getTotalSets scr"
    and "ex \<in> set (exercises w)" and "sv \<in> set (ex_sets ex)"
  shows "sv_completed sv"
proof -
  let ?c = "\<lambda>ex. length (filter sv_completed (ex_sets ex))"
  let ?t = "\<lambda>ex. length (ex_sets ex)"
  have "\<forall>x \<in> set (exercises w). ?c x \<le> ?t x" by simp
  moreover from assms(1,2) have "sum_list (map ?c (exercises w)) = sum_list (map ?t (exercises w))"
    by (simp add: getCompletedSets_sum getTotalSets_sum)
  ultimately have eq: "?c ex = ?t ex"
    using assms(3) by (rule sum_list_equal_parts)
  show ?thesis
  proof (rule ccontr)
    assume "\<not> sv_completed sv"
    with assms(4) have "?c ex < ?t ex" by (rule length_filter_less)
    with eq show False by simp
  qed
qed

text \<open>What the events make of the screen: the route parameter stays, and the workout row of
  the copy is the row that a read found under that parameter.\<close>

lemma update_local_workout:
  "workoutId (update_local scr setId ch) = workoutId scr"
  "loading (update_local scr setId ch) = loading scr"
  "workout (update_local scr setId ch) = Some v \<Longrightarrow> \<exists>v0. workout scr = Some v0 \<and> wv_row v = wv_row v0"
  by (auto simp: update_local_def split: option.splits)

lemma edit_screen:
  "toggleSetCompletion E s scr setId c = (a, scr', s') \<Longrightarrow>
     scr' = scr \<or> scr' = update_local scr setId (\<lambda>set. set\<lparr>sv_completed := \<not> c\<rparr>)"
  "updateSetReps E s scr setId x = (a, scr', s') \<Longrightarrow>
     scr' = scr \<or> scr' = update_local scr setId (\<lambda>set. set\<lparr>sv_reps := safeReps x\<rparr>)"
  "updateSetWeight E s scr setId w = (a, scr', s') \<Longrightarrow>
     scr' = scr \<or> scr' = update_local scr setId (\<lambda>set. set\<lparr>sv_weight := weightValue w\<rparr>)"
  by (auto simp: toggleSetCompletion_def updateSetReps_def updateSetWeight_def
      split: prod.splits sum.splits)

lemma press_screen: "pressCompleteWorkout E now s scr = (a, scr', s') \<Longrightarrow> scr' = scr"
  by (auto simp: pressCompleteWorkout_def completeWorkout_def split: if_splits prod.splits sum.splits)

lemma reachable_workout:
  "reachable E scr \<Longrightarrow> workout scr = Some v \<Longrightarrow> w_id (wv_row v) = workoutId scr"
proof (induction arbitrary: v rule: reachable.induct)
  case (mounted_screen wid)
  then show ?case by (simp add: mounted_def)
next
  case (served_screen scr ev s s' scr')
  show ?case
  proof (cases ev)
    case (CreateWorkout user nm descr sels)
    with served_screen.hyps(2) have "scr' = scr" by (simp add: step_def)
    with served_screen show ?thesis by simp
  next
    case (OpenWorkoutDetail wid)
    with served_screen.hyps(2) obtain a where run: "fetchWorkoutDetails E s (mounted wid) = (a, scr', s')"
      by (auto simp: step_def split: prod.splits)
    from fetchWorkoutDetails_loaded [OF run served_screen.prems] have "a = None" .
    with run have "fetchWorkoutDetails E s (mounted wid) = (None, scr', s')" by simp
    from fetchWorkoutDetails_row [OF this] served_screen.prems show ?thesis by auto
  next
    case (ToggleSetCompletion setId c)
    with served_screen.hyps(2) obtain a where "toggleSetCompletion E s scr setId c = (a, scr', s')"
      by (auto simp: step_def split: prod.splits)
    from edit_screen(1) [OF this] served_screen.prems served_screen.IH show ?thesis
      by (auto simp: update_local_workout(1) dest!: update_local_workout(3))
  next
    case (EditReps setId x)
    with served_screen.hyps(2) obtain a where "updateSetReps E s scr setId x = (a, scr', s')"
      by (auto simp: step_def split: prod.splits)
    from edit_screen(2) [OF this] served_screen.prems served_screen.IH show ?thesis
      by (auto simp: update_local_workout(1) dest!: update_local_workout(3))
  next
    case (EditWeight setId w)
    with served_screen.hyps(2) obtain a where "updateSetWeight E s scr setId w = (a, scr', s')"
      by (auto simp: step_def split: prod.splits)
    from edit_screen(3) [OF this] served_screen.prems served_screen.IH show ?thesis
      by (auto simp: update_local_workout(1) dest!: update_local_workout(3))
  next
    case (PressCompleteWorkout now)
    with served_screen.hyps(2) obtain a where "pressCompleteWorkout E now s scr = (a, scr', s')"
      by (auto simp: step_def split: prod.splits)
    from press_screen [OF this] served_screen show ?thesis by simp
  qed
qed

text \<open>The copy is current for the store from which it was just loaded, and it stays current
  when the screen's own update of a set is applied to the store and to the copy in one
  step.\<close>

lemma fetch_current:
  assumes "fetchWorkoutDetails E s scr = (None, scr', s')"
  shows "current s' scr'"
  unfolding current_def
proof (intro ballI impI)
  fix we r
  assume we: "we \<in> set (tbl_workout_exercises s')" "we_workout_id we = workoutId scr'"
    and r: "r \<in> set (tbl_sets s')" "s_workout_exercise_id r = we_id we"
  from fetchWorkoutDetails_tables [OF assms] fetchWorkoutDetails_row [OF assms] we r
  have "we \<in> set (tbl_workout_exercises s)" "we_workout_id we = workoutId scr"
    "r \<in> set (tbl_sets s)"
    by simp_all
  from fetchWorkoutDetails_covers [OF assms this r(2)]
  obtain v ex where "workout scr' = Some v" "ex \<in> set (exercises v)" "set_view r \<in> set (ex_sets ex)"
    by blast
  moreover have "sv_id (set_view r) = s_id r" "sv_completed (set_view r) = s_completed r"
    by (simp_all add: set_view_def)
  ultimately show "\<exists>v ex sv. workout scr' = Some v \<and> ex \<in> set (exercises v) \<and> sv \<in> set (ex_sets ex)
                      \<and> sv_id sv = s_id r \<and> sv_completed sv = s_completed r"
    by blast
qed

lemma own_update_current:
  assumes cur: "current s scr"
    and ids: "\<And>x. sv_id (ch x) = sv_id x" "\<And>r. s_id (W r) = s_id r"
      "\<And>r. s_workout_exercise_id (W r) = s_workout_exercise_id r"
    and marks: "\<And>r x. sv_completed x = s_completed r \<Longrightarrow> sv_completed (ch x) = s_completed (W r)"
  shows "current (s\<lparr>tbl_sets := map (\<lambda>r. if s_id r = setId then W r else r) (tbl_sets s),
                     calls := c\<rparr>)
                 (update_local scr setId ch)"
  unfolding current_def
proof (intro ballI impI)
  let ?s' = "s\<lparr>tbl_sets := map (\<lambda>r. if s_id r = setId then W r else r) (tbl_sets s), calls := c\<rparr>"
  let ?scr' = "update_local scr setId ch"
  let ?U = "\<lambda>set. if sv_id set = setId then ch set else set"
  fix we r
  assume we: "we \<in> set (tbl_workout_exercises ?s')" "we_workout_id we = workoutId ?scr'"
    and r: "r \<in> set (tbl_sets ?s')" "s_workout_exercise_id r = we_id we"
  from r(1) obtain r0 where r0: "r0 \<in> set (tbl_sets s)"
    and rr: "r = (if s_id r0 = setId then W r0 else r0)"
    by auto
  from rr ids have same: "s_id r = s_id r0" "s_workout_exercise_id r = s_workout_exercise_id r0"
    by (cases "s_id r0 = setId"; simp)+
  from we have "we \<in> set (tbl_workout_exercises s)" "we_workout_id we = workoutId scr"
    by (simp_all add: update_local_workout(1))
  with cur r0 r(2) same obtain v ex sv where v: "workout scr = Some v"
    and ex: "ex \<in> set (exercises v)" and sv: "sv \<in> set (ex_sets ex)"
    and id: "sv_id sv = s_id r0" and mark: "sv_completed sv = s_completed r0"
    unfolding current_def by metis
  let ?ex' = "ex\<lparr>ex_sets := map ?U (ex_sets ex)\<rparr>"
  let ?v' = "v\<lparr>exercises := map (\<lambda>exercise. exercise\<lparr>ex_sets := map ?U (ex_sets exercise)\<rparr>)
                                (exercises v)\<rparr>"
  from v have "workout ?scr' = Some ?v'" by (simp add: update_local_def)
  moreover from ex have "?ex' \<in> set (exercises ?v')" by auto
  moreover from sv have "?U sv \<in> set (ex_sets ?ex')" by auto
  moreover from id ids(1) same have "sv_id (?U sv) = s_id r" by simp
  moreover have "sv_completed (?U sv) = s_completed r"
  proof (cases "s_id r0 = setId")
    case True
    with id rr marks [OF mark] show ?thesis by simp
  next
    case False
    with id rr mark show ?thesis by simp
  qed
  ultimately show "\<exists>v ex sv. workout ?scr' = Some v \<and> ex \<in> set (exercises v) \<and> sv \<in> set (ex_sets ex)
                      \<and> sv_id sv = s_id r \<and> sv_completed sv = s_completed r"
    by blast
qed

lemma current_calls: "current (s\<lparr>calls := c\<rparr>) scr = current s scr"
  by (simp add: current_def)

lemma toggle_current:
  assumes "current s scr" and "toggleSetCompletion E s scr setId c = (a, scr', s')"
  shows "current s' scr'"
proof (cases rule: update_set_cases [of E s setId "Set_completed (\<not> c)"])
  case (failed msg)
  with assms(2) have "scr' = scr" "s' = s\<lparr>calls := calls s + 1\<rparr>"
    by (simp_all add: toggleSetCompletion_def)
  with assms(1) show ?thesis by (simp add: current_calls)
next
  case written
  have "(\<lambda>r. if s_id r = setId then write_set (Set_completed (\<not> c)) r else r)
          = (\<lambda>r. if s_id r = setId then r\<lparr>s_completed := \<not> c\<rparr> else r)"
    by (simp add: fun_eq_iff)
  with written(2) assms(2)
  have "scr' = update_local scr setId (\<lambda>set. set\<lparr>sv_completed := \<not> c\<rparr>)"
    and "s' = s\<lparr>tbl_sets := map (\<lambda>r. if s_id r = setId then r\<lparr>s_completed := \<not> c\<rparr> else r)
                                  (tbl_sets s),
                calls := calls s + 1\<rparr>"
    by (simp_all add: toggleSetCompletion_def)
  then show ?thesis
    using own_update_current [OF assms(1), where ch = "\<lambda>set. set\<lparr>sv_completed := \<not> c\<rparr>"
        and W = "\<lambda>r. r\<lparr>s_completed := \<not> c\<rparr>" and setId = setId and c = "calls s + 1"]
    by simp
qed

lemma edit_current:
  assumes "current s scr"
  shows "updateSetReps E s scr setId x = (a, scr', s') \<Longrightarrow> current s' scr'"
    and "updateSetWeight E s scr setId w = (a, scr', s') \<Longrightarrow> current s' scr'"
proof -
  assume run: "updateSetReps E s scr setId x = (a, scr', s')"
  show "current s' scr'"
  proof (cases rule: updateSetReps_cases [of E s scr setId x])
    case (failed msg)
    with run have "scr' = scr" "s' = s\<lparr>calls := calls s + 1\<rparr>" by simp_all
    with assms show ?thesis by (simp add: current_calls)
  next
    case written
    with run have "scr' = update_local scr setId (\<lambda>set. set\<lparr>sv_reps := safeReps x\<rparr>)"
      and "s' = s\<lparr>tbl_sets := map (\<lambda>r. if s_id r = setId then r\<lparr>s_reps := safeReps x\<rparr> else r)
                                    (tbl_sets s),
                  calls := calls s + 1\<rparr>"
      by simp_all
    then show ?thesis
      using own_update_current [OF assms, where ch = "\<lambda>set. set\<lparr>sv_reps := safeReps x\<rparr>"
          and W = "\<lambda>r. r\<lparr>s_reps := safeReps x\<rparr>" and setId = setId and c = "calls s + 1"]
      by simp
  qed
next
  assume run: "updateSetWeight E s scr setId w = (a, scr', s')"
  show "current s' scr'"
  proof (cases rule: update_set_cases [of E s setId "Set_weight (weightValue w)"])
    case (failed msg)
    with run have "scr' = scr" "s' = s\<lparr>calls := calls s + 1\<rparr>"
      by (simp_all add: updateSetWeight_def)
    with assms show ?thesis by (simp add: current_calls)
  next
    case written
    have "(\<lambda>r. if s_id r = setId then write_set (Set_weight (weightValue w)) r else r)
            = (\<lambda>r. if s_id r = setId then r\<lparr>s_weight := weight_stored (weightValue w)\<rparr> else r)"
      by (simp add: fun_eq_iff)
    with written(2) run
    have "scr' = update_local scr setId (\<lambda>set. set\<lparr>sv_weight := weightValue w\<rparr>)"
      and "s' = s\<lparr>tbl_sets := map (\<lambda>r. if s_id r = setId
                                         then r\<lparr>s_weight := weight_stored (weightValue w)\<rparr> else r)
                                    (tbl_sets s),
                  calls := calls s + 1\<rparr>"
      by (simp_all add: updateSetWeight_def)
    then show ?thesis
      using own_update_current [OF assms, where ch = "\<lambda>set. set\<lparr>sv_weight := weightValue w\<rparr>"
          and W = "\<lambda>r. r\<lparr>s_weight := weight_stored (weightValue w)\<rparr>" and setId = setId
          and c = "calls s + 1"]
      by simp
  qed
qed

text \<open>
  Claim C1, as the code has it. Let the detail screen be in a state that the application
  can reach, and let an event be served against any store. The completion time of a
  workout row changes from NULL to a time only if the event is a press on the footer
  button, the screen was opened for that workout and is not loading, its copy of the
  workout is the row of that id and has no completion time, and every set of the copy is
  completed, the two counts being equal; the time stored is the time of the press. The
  gate reads the copy and not the store: when the copy is current for the store, every
  set that the store has for the workout is completed.
\<close>

theorem completion_gate:
  assumes reach: "reachable E scr"
    and step: "step E ev (s, scr) = (s', scr')"
    and i: "i < length (tbl_workouts s)"
    and before: "w_completed_at (tbl_workouts s ! i) = None"
    and after: "w_completed_at (tbl_workouts s' ! i) \<noteq> None"
  shows "(\<exists>now. ev = PressCompleteWorkout now \<and> w_completed_at (tbl_workouts s' ! i) = Some now)
       \<and> w_id (tbl_workouts s ! i) = workoutId scr
       \<and> \<not> loading scr
       \<and> (\<exists>v. workout scr = Some v \<and> w_id (wv_row v) = w_id (tbl_workouts s ! i)
              \<and> w_completed_at (wv_row v) = None
              \<and> (\<forall>ex \<in> set (exercises v). \<forall>sv \<in> set (ex_sets ex). sv_completed sv))
       \<and> getCompletedSets scr = getTotalSets scr
       \<and> (current s scr \<longrightarrow>
            (\<forall>we \<in> set (tbl_workout_exercises s). we_workout_id we = w_id (tbl_workouts s ! i) \<longrightarrow>
               (\<forall>r \<in> set (tbl_sets s). s_workout_exercise_id r = we_id we \<longrightarrow> s_completed r)))"
proof (cases ev)
  case (CreateWorkout user nm descr sels)
  with step have s': "s' = snd (createWorkout E s user nm descr sels)"
    by (simp add: step_def)
  from createWorkout_workouts [of s E user nm descr sels] i
  have "tbl_workouts s' ! i = tbl_workouts s ! i"
    unfolding s' by (auto simp: prefix_def nth_append)
  with before after show ?thesis by simp
next
  case (OpenWorkoutDetail wid)
  with step obtain a where "fetchWorkoutDetails E s (mounted wid) = (a, scr', s')"
    by (auto simp: step_def split: prod.splits)
  from fetchWorkoutDetails_workouts [OF this] before after show ?thesis by simp
next
  case (ToggleSetCompletion setId completed)
  with step have "tbl_workouts s' = tbl_workouts s"
    using update_set_workouts [of E s setId "Set_completed (\<not> completed)"]
    by (auto simp: step_def toggleSetCompletion_def split: prod.splits sum.splits)
  with before after show ?thesis by simp
next
  case (EditReps setId newReps)
  with step have "tbl_workouts s' = tbl_workouts s"
    using update_set_workouts [of E s setId "Set_reps (safeReps newReps)"]
    by (auto simp: step_def updateSetReps_def split: prod.splits sum.splits)
  with before after show ?thesis by simp
next
  case (EditWeight setId newWeight)
  with step have "tbl_workouts s' = tbl_workouts s"
    using update_set_workouts [of E s setId "Set_weight (weightValue newWeight)"]
    by (auto simp: step_def updateSetWeight_def split: prod.splits sum.splits)
  with before after show ?thesis by simp
next
  case (PressCompleteWorkout now)
  show ?thesis
  proof (cases "completeWorkoutButton scr = Enabled")
    case False
    with step PressCompleteWorkout have "s' = s"
      by (simp add: step_def pressCompleteWorkout_def)
    with before after show ?thesis by simp
  next
    case True
    note enabled = this
    show ?thesis
    proof (cases "fails E (calls s)")
      case (Some msg)
      with step PressCompleteWorkout enabled have "tbl_workouts s' = tbl_workouts s"
        by (auto simp: step_def pressCompleteWorkout_def completeWorkout_def update_completed_at_fail)
      with before after show ?thesis by simp
    next
      case None
      with step PressCompleteWorkout enabled
      have "tbl_workouts s' = map (\<lambda>w. if w_id w = workoutId scr then w\<lparr>w_completed_at := Some now\<rparr> else w)
                                  (tbl_workouts s)"
        by (auto simp: step_def pressCompleteWorkout_def completeWorkout_def update_completed_at_ok)
      with i have row: "tbl_workouts s' ! i
              = (if w_id (tbl_workouts s ! i) = workoutId scr
                 then (tbl_workouts s ! i)\<lparr>w_completed_at := Some now\<rparr> else tbl_workouts s ! i)"
        by simp
      with before after have id: "w_id (tbl_workouts s ! i) = workoutId scr"
        by (cases "w_id (tbl_workouts s ! i) = workoutId scr") simp_all
      with row have time: "w_completed_at (tbl_workouts s' ! i) = Some now" by simp
      from enabled obtain v where v: "workout scr = Some v" "w_completed_at (wv_row v) = None"
        and counts: "getCompletedSets scr = getTotalSets scr" and ready: "\<not> loading scr"
        by (auto simp: button_enabled)
      from reachable_workout [OF reach v(1)] id
      have copy: "w_id (wv_row v) = w_id (tbl_workouts s ! i)" by simp
      have ticked: "\<forall>ex \<in> set (exercises v). \<forall>sv \<in> set (ex_sets ex). sv_completed sv"
        using all_sets_completed [OF v(1) counts] by blast
      have stored: "current s scr \<longrightarrow>
            (\<forall>we \<in> set (tbl_workout_exercises s). we_workout_id we = w_id (tbl_workouts s ! i) \<longrightarrow>
               (\<forall>r \<in> set (tbl_sets s). s_workout_exercise_id r = we_id we \<longrightarrow> s_completed r))"
      proof (intro impI ballI)
        fix we r
        assume cur: "current s scr"
          and we: "we \<in> set (tbl_workout_exercises s)" "we_workout_id we = w_id (tbl_workouts s ! i)"
          and r: "r \<in> set (tbl_sets s)" "s_workout_exercise_id r = we_id we"
        from cur we r id obtain v' ex sv where "workout scr = Some v'" "ex \<in> set (exercises v')"
          "sv \<in> set (ex_sets ex)" "sv_completed sv = s_completed r"
          unfolding current_def by metis
        with v(1) ticked show "s_completed r" by auto
      qed
      have "\<exists>v. workout scr = Some v \<and> w_id (wv_row v) = w_id (tbl_workouts s ! i)
              \<and> w_completed_at (wv_row v) = None
              \<and> (\<forall>ex \<in> set (exercises v). \<forall>sv \<in> set (ex_sets ex). sv_completed sv)"
        using v copy ticked by blast
      moreover have "\<exists>t. ev = PressCompleteWorkout t \<and> w_completed_at (tbl_workouts s' ! i) = Some t"
        using PressCompleteWorkout time by blast
      ultimately show ?thesis
        using id ready counts stored by - (intro conjI; assumption)
    qed
  qed
qed

theorem completion_gate_witness:
  "reachable env_ok detail_done
   \<and> step env_ok (OpenWorkoutDetail 10) (store_done, mounted 0) = (store_done\<lparr>calls := 9\<rparr>, detail_done)
   \<and> current (store_done\<lparr>calls := 9\<rparr>) detail_done
   \<and> getTotalSets detail_done = 3 \<and> getCompletedSets detail_done = 3
   \<and> map s_completed (tbl_sets (store_done\<lparr>calls := 9\<rparr>)) = [True, True, True]
   \<and> w_completed_at (tbl_workouts (store_done\<lparr>calls := 9\<rparr>) ! 0) = None
   \<and> w_completed_at
        (tbl_workouts (fst (step env_ok (PressCompleteWorkout 5000)
                              (store_done\<lparr>calls := 9\<rparr>, detail_done))) ! 0) = Some 5000"
proof -
  let ?s = "store_done\<lparr>calls := 9\<rparr>"
  let ?r = "step env_ok (PressCompleteWorkout 5000) (?s, detail_done)"
  have opened: "step env_ok (OpenWorkoutDetail 10) (store_done, mounted 0) = (?s, detail_done)"
    by (simp add: step_def fetch_done)
  have reach: "reachable env_ok detail_done"
    by (rule served_screen [OF mounted_screen opened])
  have cur: "current ?s detail_done"
    by (rule fetch_current [OF fetch_done])
  have counts: "getTotalSets detail_done = 3" "getCompletedSets detail_done = 3"
    by (simp_all add: getTotalSets_def getCompletedSets_def detail_done_def)
  have marks: "map s_completed (tbl_sets ?s) = [True, True, True]"
    by (simp add: store_done_def store1_def)
  have h1: "?r = (fst ?r, snd ?r)" by simp
  have h2: "0 < length (tbl_workouts ?s)" by (simp add: store_done_def store1_def)
  have h3: "w_completed_at (tbl_workouts ?s ! 0) = None" by (simp add: store_done_def store1_def)
  have "completeWorkoutButton detail_done = Enabled"
    by (simp add: completeWorkoutButton_def counts) (simp add: detail_done_def)
  then have "tbl_workouts (fst ?r)
               = map (\<lambda>w. if w_id w = 10 then w\<lparr>w_completed_at := Some 5000\<rparr> else w) (tbl_workouts ?s)"
    by (simp add: step_def pressCompleteWorkout_def completeWorkout_def update_completed_at_def
        called_def env_ok_def detail_done_def)
  then have h4: "w_completed_at (tbl_workouts (fst ?r) ! 0) \<noteq> None"
    by (simp add: store_done_def store1_def)
  from completion_gate [OF reach h1 h2 h3 h4]
  have "\<exists>now. PressCompleteWorkout 5000 = PressCompleteWorkout now
            \<and> w_completed_at (tbl_workouts (fst ?r) ! 0) = Some now"
    by blast
  then have "w_completed_at (tbl_workouts (fst ?r) ! 0) = Some 5000" by simp
  with reach opened cur counts marks h3 show ?thesis by - (intro conjI; assumption)
qed

text \<open>
  Claim C1 as stated fails for a workout without sets: the button compares the two
  counts and nothing else. A composition that stops after the workout row leaves such a
  workout; its detail screen counts 0 of 0 sets, the button is enabled, and the press
  stores a completion time.
\<close>

theorem complete_without_sets:
  "createWorkout (failing_at 1) store0 7 name0 [] draft0
     = (Alert ''Error'' ''network error'', store_header)
   \<and> step env_ok (OpenWorkoutDetail 10) (store_header, mounted 0)
     = (store_header\<lparr>calls := 4\<rparr>, detail_header)
   \<and> getTotalSets detail_header = 0
   \<and> map w_completed_at (tbl_workouts (store_header\<lparr>calls := 4\<rparr>)) = [None]
   \<and> map w_completed_at
        (tbl_workouts (fst (step env_ok (PressCompleteWorkout 5000)
                              (store_header\<lparr>calls := 4\<rparr>, detail_header)))) = [Some 5000]"
proof -
  have opened: "step env_ok (OpenWorkoutDetail 10) (store_header, mounted 0)
                  = (store_header\<lparr>calls := 4\<rparr>, detail_header)"
    by (simp add: step_def fetch_header)
  have total: "getTotalSets detail_header = 0"
    by (simp add: getTotalSets_def detail_header_def)
  have before: "map w_completed_at (tbl_workouts (store_header\<lparr>calls := 4\<rparr>)) = [None]"
    by (simp add: store_header_def)
  have "completeWorkoutButton detail_header = Enabled"
    by (simp add: completeWorkoutButton_def getTotalSets_def getCompletedSets_def detail_header_def)
  then have pressed: "map w_completed_at
        (tbl_workouts (fst (step env_ok (PressCompleteWorkout 5000)
                              (store_header\<lparr>calls := 4\<rparr>, detail_header)))) = [Some 5000]"
    by (simp add: step_def pressCompleteWorkout_def completeWorkout_def update_completed_at_def
        called_def env_ok_def detail_header_def store_header_def)
  from partial_run opened total before pressed show ?thesis
    by - (intro conjI; assumption)
qed

text \<open>
  The gate does not read the store. The screen \<open>detail_done\<close> is the copy loaded when every
  set of workout 10 was completed; served against the store \<open>store1\<close>, in which no set of
  the workout is completed (the marks were taken back elsewhere after the load), the
  press completes the workout all the same.
\<close>

theorem stale_copy_completes:
  "reachable env_ok detail_done
   \<and> \<not> current store1 detail_done
   \<and> map s_completed (tbl_sets store1) = [False, False, False]
   \<and> map w_completed_at (tbl_workouts store1) = [None]
   \<and> map w_completed_at
        (tbl_workouts (fst (step env_ok (PressCompleteWorkout 5000) (store1, detail_done))))
       = [Some 5000]"
proof -
  have opened: "step env_ok (OpenWorkoutDetail 10) (store_done, mounted 0)
                  = (store_done\<lparr>calls := 9\<rparr>, detail_done)"
    by (simp add: step_def fetch_done)
  have reach: "reachable env_ok detail_done"
    by (rule served_screen [OF mounted_screen opened])
  have stale: "\<not> current store1 detail_done"
  proof
    let ?we = "\<lparr>we_id = 11, we_workout_id = 10, we_exercise_id = 1, we_order = 0,
                we_created_at = 1001\<rparr>"
    let ?r = "\<lparr>s_id = 12, s_workout_exercise_id = 11, s_weight = None, s_reps = Fin 8,
               s_completed = False, s_created_at = 1002\<rparr>"
    assume "current store1 detail_done"
    moreover have "?we \<in> set (tbl_workout_exercises store1)" "we_workout_id ?we = workoutId detail_done"
      "?r \<in> set (tbl_sets store1)" "s_workout_exercise_id ?r = we_id ?we"
      by (simp_all add: store1_def detail_done_def)
    ultimately obtain v ex sv where "workout detail_done = Some v" "ex \<in> set (exercises v)"
      "sv \<in> set (ex_sets ex)" "sv_completed sv = s_completed ?r"
      unfolding current_def by metis
    then show False by (auto simp: detail_done_def)
  qed
  have marks: "map s_completed (tbl_sets store1) = [False, False, False]"
    and rows: "map w_completed_at (tbl_workouts store1) = [None]"
    by (simp_all add: store1_def)
  have "completeWorkoutButton detail_done = Enabled"
    by (simp add: completeWorkoutButton_def getTotalSets_def getCompletedSets_def detail_done_def)
  then have pressed: "map w_completed_at
        (tbl_workouts (fst (step env_ok (PressCompleteWorkout 5000) (store1, detail_done))))
       = [Some 5000]"
    by (simp add: step_def pressCompleteWorkout_def completeWorkout_def update_completed_at_def
        called_def env_ok_def detail_done_def store1_def)
  from reach stale marks rows pressed show ?thesis by - (intro conjI; assumption)
qed

section \<open>The previous-performance lookup\<close>

text \<open>
  The lookup returns at most one junction row. The row belongs to the exercise asked for,
  to a workout of the user created before the current one, and carries the sets of that
  junction row. A lookup that fails leaves the exercise without previous sets and does not
  fail the screen.
\<close>

lemma previous_rows_at_most_one: "length (previous_rows s exid before user) \<le> 1"
  by (simp add: previous_rows_def)

lemma previous_rows_match:
  assumes "r \<in> set (previous_rows s exid before user)"
  shows "\<exists>we \<in> set (tbl_workout_exercises s).
           pw_id r = we_id we \<and> we_exercise_id we = exid
         \<and> pw_sets r = map prev_set (sets_of s (we_id we))
         \<and> (\<exists>w \<in> set (tbl_workouts s).
               w_id w = we_workout_id we \<and> w_user_id w = user \<and> w_created_at w < before
             \<and> pw_workouts r = (w_created_at w, w_user_id w))"
proof -
  let ?row = "\<lambda>we. case inner_workouts s we before user of
                        [] \<Rightarrow> []
                      | w # _ \<Rightarrow> [\<lparr>pw_id = we_id we,
                                    pw_sets = map prev_set (sets_of s (we_id we)),
                                    pw_workouts = (w_created_at w, w_user_id w)\<rparr>]"
  from assms have "r \<in> set (concat (map ?row (filter (\<lambda>we. we_exercise_id we = exid)
                                                   (tbl_workout_exercises s))))"
    unfolding previous_rows_def by (rule in_set_takeD)
  then obtain we where we: "we \<in> set (tbl_workout_exercises s)" "we_exercise_id we = exid"
    and r: "r \<in> set (?row we)"
    by auto
  from r obtain w ws where inner: "inner_workouts s we before user = w # ws"
    and row: "r = \<lparr>pw_id = we_id we, pw_sets = map prev_set (sets_of s (we_id we)),
                    pw_workouts = (w_created_at w, w_user_id w)\<rparr>"
    by (cases "inner_workouts s we before user") auto
  from inner have "w \<in> set (inner_workouts s we before user)" by simp
  then have "w \<in> set (tbl_workouts s)" "w_id w = we_workout_id we" "w_user_id w = user"
    "w_created_at w < before"
    by (simp_all add: inner_workouts_def)
  with we row show ?thesis by auto
qed

lemma previousSets_none: "previousSets (Inl msg) = []" "previousSets (Inr []) = []"
  by (simp_all add: previousSets_def)

lemma previousSets_first:
  "previousSets (Inr (r # rs))
     = map (\<lambda>x. \<lparr>pv_weight = ps_weight x, pv_reps = Some (ps_reps x)\<rparr>)
           (sort_key ps_created_at (pw_sets r))"
  "sorted (map ps_created_at (sort_key ps_created_at (pw_sets r)))"
  "set (sort_key ps_created_at (pw_sets r)) = set (pw_sets r)"
  by (simp_all add: previousSets_def)

lemma select_previous_calls:
  "calls (snd (select_previous E s exid before user)) = calls s + 1"
  by (simp add: select_previous_def called_def split: option.splits)

lemma select_previous_failed:
  "fails E (calls s) = Some msg \<Longrightarrow> fst (select_previous E s exid before user) = Inl msg"
  by (simp add: select_previous_def)

lemma fetchPrevious_other:
  "x \<notin> ex_id ` set exs \<Longrightarrow> fst (fetchPrevious E s wd exs m) x = m x"
proof (induction exs arbitrary: s m)
  case Nil
  then show ?case by simp
next
  case (Cons ex exs)
  then show ?case by (simp split: prod.splits)
qed

lemma fetchPrevious_failed_lookup:
  "distinct (map ex_id exs) \<Longrightarrow> i < length exs \<Longrightarrow> fails E (calls s + i) = Some msg \<Longrightarrow>
   fst (fetchPrevious E s wd exs m) (ex_id (exs ! i)) = Some []"
proof (induction exs arbitrary: s m i)
  case Nil
  then show ?case by simp
next
  case (Cons ex exs)
  obtain answer s1 where sel: "select_previous E s (ex_id ex) (w_created_at wd) (w_user_id wd) = (answer, s1)"
    by (cases "select_previous E s (ex_id ex) (w_created_at wd) (w_user_id wd)")
  then have s1: "calls s1 = calls s + 1"
    using select_previous_calls [of E s "ex_id ex" "w_created_at wd" "w_user_id wd"] by simp
  show ?case
  proof (cases i)
    case 0
    with Cons.prems sel have "answer = Inl msg"
      using select_previous_failed [of E s msg "ex_id ex" "w_created_at wd" "w_user_id wd"] by simp
    moreover from Cons.prems have "ex_id ex \<notin> ex_id ` set exs" by auto
    ultimately show ?thesis
      using 0 sel by (simp add: fetchPrevious_other previousSets_none)
  next
    case (Suc j)
    with Cons.prems have j: "j < length exs" and d: "distinct (map ex_id exs)"
      and f: "fails E (calls s1 + j) = Some msg"
      by (simp_all add: s1)
    from Cons.IH [OF d j f] Suc sel show ?thesis by simp
  qed
qed

lemma lookup_failure_tolerated:
  assumes "select_workout E s (workoutId scr) = (Inr workoutData, s1)"
    and "select_workout_exercises E s1 (workoutId scr) = (Inr js, s2)"
    and "transform js = Some exs"
  shows "fst (fetchWorkoutDetails E s scr) = None
       \<and> workout (fst (snd (fetchWorkoutDetails E s scr)))
           = Some \<lparr>wv_row = workoutData, exercises = exs\<rparr>
       \<and> previousByExerciseId (fst (snd (fetchWorkoutDetails E s scr)))
           = fst (fetchPrevious E s2 workoutData exs Map.empty)"
  using assms by (simp add: fetchWorkoutDetails_def split: prod.splits)

text \<open>
  Claim C3. The claim is that the lookup takes the most recent earlier workout with the
  exercise. In \<open>store2\<close> the user has done exercise 1 in workout 10 (created at 1000) and
  in workout 20 (created at 2000); for workout 30 (created at 3000) the query returns the
  junction row 11 of workout 10, and the screen gets the two sets of workout 10 as the
  previous sets, not the set of workout 20.
\<close>

theorem previous_is_not_most_recent:
  "map (\<lambda>w. (w_id w, w_user_id w, w_created_at w)) (tbl_workouts store2)
     = [(10, 7, 1000), (20, 7, 2000), (30, 7, 3000)]
   \<and> map (\<lambda>we. (we_id we, we_workout_id we, we_exercise_id we)) (tbl_workout_exercises store2)
     = [(11, 10, 1), (14, 10, 2), (21, 20, 1), (31, 30, 1)]
   \<and> map (\<lambda>r. (pw_id r, pw_workouts r)) (previous_rows store2 1 3000 7) = [(11, (1000, 7))]
   \<and> previousSets (fst (select_previous env_ok store2 1 3000 7))
       = [\<lparr>pv_weight = Some (Fin 50), pv_reps = Some (Fin 8)\<rparr>,
          \<lparr>pv_weight = Some (Fin 60), pv_reps = Some (Fin 5)\<rparr>]
   \<and> map (\<lambda>r. (s_weight r, s_reps r)) (sets_of store2 21) = [(Some (Fin 65), Fin 5)]
   \<and> previousByExerciseId (fst (snd (fetchWorkoutDetails env_ok store2 (mounted 30)))) 1
       = Some [\<lparr>pv_weight = Some (Fin 50), pv_reps = Some (Fin 8)\<rparr>,
               \<lparr>pv_weight = Some (Fin 60), pv_reps = Some (Fin 5)\<rparr>]"
proof -
  have rows: "previous_rows store2 1 3000 7
     = [\<lparr>pw_id = 11,
         pw_sets = [\<lparr>ps_id = 12, ps_weight = Some (Fin 50), ps_reps = Fin 8, ps_created_at = 1002\<rparr>,
                    \<lparr>ps_id = 13, ps_weight = Some (Fin 60), ps_reps = Fin 5, ps_created_at = 1002\<rparr>],
         pw_workouts = (1000, 7)\<rparr>]"
    by (simp add: previous_rows_def inner_workouts_def sets_of_def prev_set_def store2_def)
  have prev: "previousSets (fst (select_previous env_ok store2 1 3000 7))
       = [\<lparr>pv_weight = Some (Fin 50), pv_reps = Some (Fin 8)\<rparr>,
          \<lparr>pv_weight = Some (Fin 60), pv_reps = Some (Fin 5)\<rparr>]"
    using rows by (simp add: select_previous_def previousSets_def env_ok_def)
  have fetched: "previousByExerciseId (fst (snd (fetchWorkoutDetails env_ok store2 (mounted 30)))) 1
       = Some [\<lparr>pv_weight = Some (Fin 50), pv_reps = Some (Fin 8)\<rparr>,
               \<lparr>pv_weight = Some (Fin 60), pv_reps = Some (Fin 5)\<rparr>]"
    by (simp add: fetchWorkoutDetails_def select_workout_def select_workout_exercises_def
      select_previous_def previous_rows_def inner_workouts_def previousSets_def
      join_exercise_def sets_of_def set_view_def prev_set_def called_def mounted_def
      env_ok_def store2_def store0_def)
  have tables: "map (\<lambda>w. (w_id w, w_user_id w, w_created_at w)) (tbl_workouts store2)
     = [(10, 7, 1000), (20, 7, 2000), (30, 7, 3000)]"
    "map (\<lambda>we. (we_id we, we_workout_id we, we_exercise_id we)) (tbl_workout_exercises store2)
     = [(11, 10, 1), (14, 10, 2), (21, 20, 1), (31, 30, 1)]"
    "map (\<lambda>r. (s_weight r, s_reps r)) (sets_of store2 21) = [(Some (Fin 65), Fin 5)]"
    by (simp_all add: sets_of_def store2_def)
  from rows have "map (\<lambda>r. (pw_id r, pw_workouts r)) (previous_rows store2 1 3000 7) = [(11, (1000, 7))]"
    by simp
  with tables prev fetched show ?thesis by - (intro conjI; assumption)
qed

end
